theory Spec2Isabelle
  imports Main "HOL-Library.AList" "HOL-Library.Multiset"
begin

section \<open>Data model of server.js\<close>

text \<open>
  The server keeps one process-wide \<open>gameState\<close>. Its \<open>players\<close> and \<open>killCooldowns\<close> are
  JavaScript \<open>Map\<close>s keyed by the socket id; a \<open>Map\<close> enumerates in insertion order, so both are
  association lists: \<open>Map.get\<close> is \<open>map_of\<close>, \<open>Map.set\<close> is \<open>AList.update\<close> (an existing key
  keeps its position, a new key goes to the end), \<open>Map.delete\<close> is \<open>AList.delete\<close>, and a
  mutation of the object stored under a key is \<open>AList.map_entry\<close>. The fields \<open>rooms\<close> and
  \<open>games\<close> are never read or written and are left out; \<open>meetingDuration\<close> is a constant.
  Numbers are integers throughout (counts, seconds, milliseconds of \<open>Date.now()\<close>).
\<close>

type_synonym ident = string

datatype role = Impostor | Crewmate

record task =
  task_id :: string
  task_name :: string
  task_duration :: nat

definition CREWMATE_TASKS :: "task list" where
  "CREWMATE_TASKS =
    [\<lparr>task_id = ''network'', task_name = ''Network Security Log'', task_duration = 120\<rparr>,
     \<lparr>task_id = ''phishing'', task_name = ''Phishing Email Sort'', task_duration = 180\<rparr>,
     \<lparr>task_id = ''firewall'', task_name = ''Firewall Construction'', task_duration = 150\<rparr>,
     \<lparr>task_id = ''encryption'', task_name = ''Data Encryption'', task_duration = 100\<rparr>,
     \<lparr>task_id = ''backup'', task_name = ''System Backup'', task_duration = 90\<rparr>]"

record taskSlot =
  completed :: bool
  data :: "string option"

record taskProgress =
  tasksCompleted :: int
  task1 :: taskSlot
  task2 :: taskSlot
  task3 :: taskSlot

text \<open>The object literal that \<open>join-lobby\<close>, \<open>start-game\<close> and the lobby reset all write.\<close>

definition blankSlot :: taskSlot where
  "blankSlot = \<lparr>completed = False, data = None\<rparr>"

definition blankProgress :: taskProgress where
  "blankProgress = \<lparr>tasksCompleted = 0, task1 = blankSlot, task2 = blankSlot, task3 = blankSlot\<rparr>"

text \<open>
  A player object. \<open>role\<close> and \<open>vote\<close> are \<open>null\<close> (\<open>None\<close>) or a value; a vote is whatever
  string the client sent as \<open>votedFor\<close> (\<open>null\<close> and \<open>undefined\<close> are both \<open>None\<close>: the code
  tests for both together). The field \<open>id\<close> is \<open>player_id\<close>, \<open>name\<close> is \<open>player_name\<close>.
\<close>

record player =
  player_id :: ident
  player_name :: string
  role :: "role option"
  room :: string
  isAlive :: bool
  tasks :: "task list"
  sabotageCount :: int
  color :: "string option"
  taskProgress :: taskProgress
  vote :: "string option"

record gameState =
  players :: "(ident \<times> player) list"
  killCooldowns :: "(ident \<times> int) list"
  gameTimer :: bool
  timeRemaining :: int

text \<open>\<open>gameTimer\<close> is \<open>True\<close> when the interval handle is not \<open>null\<close>.\<close>

definition meetingDuration :: int where
  "meetingDuration = 90"

definition initialState :: gameState where
  "initialState = \<lparr>players = [], killCooldowns = [], gameTimer = False, timeRemaining = 300\<rparr>"

subsection \<open>The tally object of \<open>processVotes\<close>\<close>

text \<open>
  \<open>votes\<close> and \<open>voters\<close> are plain objects created by \<open>{}\<close>, so they inherit from
  \<open>Object.prototype\<close>. For a key that names an inherited member, \<open>votes[key]\<close> is a function
  (truthy) before the key has an own value, and \<open>(votes[key] || 0) + 1\<close> is then a string
  that is not a number; adding 1 to that string gives another such string. Assigning a
  string to the key \<open>__proto__\<close> does nothing. A tally value is therefore either a number or
  such a string.
\<close>

datatype tally = Num int | NotNumeric

definition objectPrototypeKeys :: "string list" where
  "objectPrototypeKeys =
    [''constructor'', ''__defineGetter__'', ''__defineSetter__'', ''hasOwnProperty'',
     ''__lookupGetter__'', ''__lookupSetter__'', ''isPrototypeOf'', ''propertyIsEnumerable'',
     ''toString'', ''valueOf'', ''__proto__'', ''toLocaleString'']"

definition obj_set :: "string \<Rightarrow> 'v \<Rightarrow> (string \<times> 'v) list \<Rightarrow> (string \<times> 'v) list" where
  "obj_set k v obj = (if k = ''__proto__'' then obj else AList.update k v obj)"

text \<open>
  \<open>Object.entries\<close> lists the keys that are array indices (canonical decimal numerals below
  \<open>2^32 - 1\<close>) first, in ascending numeric order, then the other keys in insertion order.
\<close>

definition isDigit :: "char \<Rightarrow> bool" where
  "isDigit c = (48 \<le> (of_char c :: int) \<and> (of_char c :: int) \<le> 57)"

definition digitsValue :: "string \<Rightarrow> int" where
  "digitsValue k = foldl (\<lambda>a c. 10 * a + (of_char c - 48)) 0 k"

definition isArrayIndex :: "string \<Rightarrow> bool" where
  "isArrayIndex k =
    (k \<noteq> [] \<and> list_all isDigit k \<and> (if hd k = CHR ''0'' then length k = 1 else True)
      \<and> digitsValue k < 4294967295)"

definition entries :: "(string \<times> 'v) list \<Rightarrow> (string \<times> 'v) list" where
  "entries obj =
    sort_key (\<lambda>e. digitsValue (fst e)) (filter (\<lambda>e. isArrayIndex (fst e)) obj)
      @ filter (\<lambda>e. \<not> isArrayIndex (fst e)) obj"

subsection \<open>Outgoing messages\<close>

datatype message =
    PlayerListUpdate "player list"
  | GameStarted "role option" "task list" "(ident \<times> string \<times> string option \<times> role option \<times> bool) list"
  | RestoreTaskProgress taskProgress
  | CrewmateActivity ident string string string string
  | TaskCompletedUpdate ident string int int
  | SabotageAttempt string string int bool string
  | KillCooldown int
  | PlayerKilled ident string string
  | KillCooldownActive int
  | SabotageTriggered string string "ident option"
  | BodyReported string string
  | EmergencyMeetingStarted "(ident \<times> string \<times> string option \<times> role option) list" int
  | VoteSubmitted ident string
  | PlayerEjected ident string "role option" "(string \<times> tally) list" "(string \<times> string) list"
  | NoOneEjected bool "(string \<times> tally) list"
  | GameTimerUpdate int int int
  | GameEnded string string "(ident \<times> string \<times> role option \<times> int \<times> bool) list"
  | ReturnToLobby
  | ChatMessage string string "string option" bool "role option"
  | GameStateUpdate "(ident \<times> string \<times> string option \<times> role option \<times> bool \<times> int) list" int bool
  | PlayerDisconnected ident string

text \<open>
  \<open>io.to('main').emit\<close> reaches the room, \<open>socket.to('main').emit\<close> the room without the
  sender, \<open>socket.emit\<close> one socket.
\<close>

datatype emit = ToRoom message | ToOthers ident message | ToSocket ident message

section \<open>Helper functions of server.js\<close>

definition playerValues :: "gameState \<Rightarrow> player list" where
  "playerValues s = map snd (players s)"

definition broadcastPlayerList :: "gameState \<Rightarrow> emit list" where
  "broadcastPlayerList s = [ToRoom (PlayerListUpdate (playerValues s))]"

text \<open>
  \<open>getRandomTasks\<close> sorts a copy of the catalog with a random comparator and slices the
  first \<open>n\<close> elements; the sorted copy is the parameter \<open>shuffled\<close>.
  \<open>getRandomColor\<close> indexes the colour table with \<open>Math.floor(Math.random() * 8)\<close>, the
  parameter \<open>k\<close>.
\<close>

definition getRandomTasks :: "task list \<Rightarrow> nat \<Rightarrow> task list" where
  "getRandomTasks shuffled n = take n shuffled"

definition colors :: "string list" where
  "colors = [''#ff6b6b'', ''#4ecdc4'', ''#45b7d1'', ''#96ceb4'', ''#feca57'', ''#ff9ff3'',
             ''#54a0ff'', ''#5f27cd'']"

definition getRandomColor :: "nat \<Rightarrow> string option" where
  "getRandomColor k = (if k < length colors then Some (colors ! k) else None)"

definition endGame :: "string \<Rightarrow> string \<Rightarrow> gameState \<Rightarrow> gameState \<times> emit list" where
  "endGame winners reason s =
    (s\<lparr>gameTimer := False\<rparr>,
     [ToRoom (GameEnded winners reason
        (map (\<lambda>p. (player_id p, player_name p, role p, tasksCompleted (taskProgress p), isAlive p))
           (playerValues s)))])"

text \<open>
  The callback that \<open>endGame\<close> schedules 15 seconds later resets the player objects it
  captured; \<open>captured\<close> holds the keys under which those objects are still registered.
\<close>

definition resetPlayer :: "player \<Rightarrow> player" where
  "resetPlayer p =
    p\<lparr>role := None, isAlive := True, sabotageCount := 0, vote := None,
      taskProgress := blankProgress\<rparr>"

definition endGameReset :: "ident list \<Rightarrow> gameState \<Rightarrow> gameState \<times> emit list" where
  "endGameReset captured s =
    (s\<lparr>players := map (\<lambda>(k, p). if k \<in> set captured then (k, resetPlayer p) else (k, p))
                     (players s)\<rparr>,
     [ToRoom ReturnToLobby])"

definition decideWinner :: "gameState \<Rightarrow> (string \<times> string) option" where
  "decideWinner s =
    (let ps = playerValues s;
         aliveCrewmates = filter (\<lambda>p. isAlive p \<and> role p = Some Crewmate) ps;
         aliveImpostors = filter (\<lambda>p. isAlive p \<and> role p = Some Impostor) ps;
         w = (if length aliveImpostors = 0 then Some (''crewmates'', ''All impostors eliminated'')
              else if length aliveImpostors \<ge> length aliveCrewmates
                then Some (''impostor'', ''Impostors outnumber crewmates'')
              else if list_all (\<lambda>c. tasksCompleted (taskProgress c) \<ge> 3)
                        (filter (\<lambda>p. role p = Some Crewmate) ps)
                then Some (''crewmates'', ''All tasks completed'')
              else None)
     in if timeRemaining s \<le> 0 \<and> w = None then Some (''impostor'', ''Time ran out'') else w)"

definition checkGameEnd :: "gameState \<Rightarrow> gameState \<times> emit list" where
  "checkGameEnd s =
    (case decideWinner s of
       None \<Rightarrow> (s, [])
     | Some (winner, reason) \<Rightarrow> endGame winner reason s)"

definition startGameTimer :: "gameState \<Rightarrow> gameState" where
  "startGameTimer s = s\<lparr>timeRemaining := 300, gameTimer := True\<rparr>"

text \<open>One firing of the interval callback; it only fires while the interval is set.\<close>

definition gameTimerTick :: "gameState \<Rightarrow> gameState \<times> emit list" where
  "gameTimerTick s =
    (if gameTimer s then
       (let t = timeRemaining s - 1;
            s1 = s\<lparr>timeRemaining := t\<rparr>;
            out1 = [ToRoom (GameTimerUpdate t (t div 60) (t mod 60))]
        in if t \<le> 0 then (case checkGameEnd s1 of (s2, out2) \<Rightarrow> (s2, out1 @ out2))
           else (s1, out1))
     else (s, []))"

subsection \<open>Meetings and vote resolution\<close>

definition clearVotes :: "gameState \<Rightarrow> gameState" where
  "clearVotes s = s\<lparr>players := map (\<lambda>(k, p). (k, p\<lparr>vote := None\<rparr>)) (players s)\<rparr>"

text \<open>\<open>(votes[player.vote] || 0) + 1\<close>, read through the prototype chain.\<close>

definition bump :: "(string \<times> tally) list \<Rightarrow> string \<Rightarrow> tally" where
  "bump votes v =
    (case map_of votes v of
       Some (Num c) \<Rightarrow> Num ((if c = 0 then 0 else c) + 1)
     | Some NotNumeric \<Rightarrow> NotNumeric
     | None \<Rightarrow> if v \<in> set objectPrototypeKeys then NotNumeric else Num 1)"

definition tallyStep ::
  "(string \<times> tally) list \<times> (string \<times> string) list \<Rightarrow> player
    \<Rightarrow> (string \<times> tally) list \<times> (string \<times> string) list" where
  "tallyStep acc p =
    (case vote p of
       None \<Rightarrow> acc
     | Some v \<Rightarrow> (obj_set v (bump (fst acc) v) (fst acc), obj_set (player_id p) v (snd acc)))"

text \<open>
  The scan over \<open>Object.entries(votes)\<close>; the accumulator is
  \<open>(maxVotes, ejectedPlayerId, tie)\<close>. Comparing a string that is not a number with a number
  is false for both \<open>>\<close> and \<open>===\<close>.
\<close>

fun scanStep :: "int \<times> string option \<times> bool \<Rightarrow> string \<times> tally \<Rightarrow> int \<times> string option \<times> bool" where
  "scanStep (maxVotes, ejectedPlayerId, tie) (playerId, Num voteCount) =
    (if voteCount > maxVotes then (voteCount, Some playerId, False)
     else if voteCount = maxVotes \<and> maxVotes > 0 then (maxVotes, ejectedPlayerId, True)
     else (maxVotes, ejectedPlayerId, tie))"
| "scanStep (maxVotes, ejectedPlayerId, tie) (playerId, NotNumeric) =
    (maxVotes, ejectedPlayerId, tie)"

definition tallyVotes :: "player list \<Rightarrow> (string \<times> tally) list \<times> (string \<times> string) list" where
  "tallyVotes ps = foldl tallyStep ([], []) ps"

definition scanVotes :: "(string \<times> tally) list \<Rightarrow> int \<times> string option \<times> bool" where
  "scanVotes votes = foldl scanStep (0, None, False) (entries votes)"

text \<open>
  The decision of \<open>processVotes\<close> before the votes are cleared. An empty string is falsy,
  so \<open>ejectedPlayerId &&\<close> fails for it as it does for \<open>null\<close>. When the unique winner of
  the tally is not in the registry, the inner \<open>if\<close> has no \<open>else\<close>: nothing is emitted.
  The objects \<open>votes\<close> and \<open>voters\<close> go into the messages as they enumerate and
  serialise, that is, in the order of \<open>Object.entries\<close>.
\<close>

definition resolveVotes :: "gameState \<Rightarrow> gameState \<times> emit list" where
  "resolveVotes s =
    (case tallyVotes (playerValues s) of (votes, voters) \<Rightarrow>
     case scanVotes votes of (maxVotes, ejectedPlayerId, tie) \<Rightarrow>
       if ejectedPlayerId \<noteq> None \<and> ejectedPlayerId \<noteq> Some [] \<and> maxVotes > 0 \<and> \<not> tie then
         (case ejectedPlayerId of
            None \<Rightarrow> (s, [])
          | Some pid \<Rightarrow>
             (case map_of (players s) pid of
                None \<Rightarrow> (s, [])
              | Some ejectedPlayer \<Rightarrow>
                 (case checkGameEnd
                         (s\<lparr>players := AList.map_entry pid (\<lambda>p. p\<lparr>isAlive := False\<rparr>) (players s)\<rparr>) of
                    (s1, out1) \<Rightarrow>
                      (s1, ToRoom (PlayerEjected (player_id ejectedPlayer) (player_name ejectedPlayer)
                                     (role ejectedPlayer) (entries votes) (entries voters)) # out1))))
       else (s, [ToRoom (NoOneEjected tie (entries votes))]))"

definition processVotes :: "gameState \<Rightarrow> gameState \<times> emit list" where
  "processVotes s = (case resolveVotes s of (s1, out) \<Rightarrow> (clearVotes s1, out))"

definition startEmergencyMeeting :: "gameState \<Rightarrow> gameState \<times> emit list" where
  "startEmergencyMeeting s =
    (clearVotes s,
     [ToRoom (EmergencyMeetingStarted
        (map (\<lambda>p. (player_id p, player_name p, color p, role p)) (filter isAlive (playerValues s)))
        meetingDuration)])"

text \<open>The callback that \<open>startEmergencyMeeting\<close> schedules after the meeting duration.\<close>

definition meetingTimeout :: "gameState \<Rightarrow> gameState \<times> emit list" where
  "meetingTimeout s = (if length (players s) > 0 then processVotes s else (s, []))"

section \<open>The socket handlers\<close>

text \<open>
  Each handler takes the socket id \<open>sid\<close> of the connection it runs for, the fields of the
  message, and the state; it returns the new state and what it emits, in order.
\<close>

definition newPlayer :: "ident \<Rightarrow> string \<Rightarrow> nat \<Rightarrow> player" where
  "newPlayer sid name k =
    \<lparr>player_id = sid, player_name = name, role = None, room = ''main'', isAlive = True,
     tasks = [], sabotageCount = 0, color = getRandomColor k, taskProgress = blankProgress,
     vote = None\<rparr>"

definition join_lobby :: "ident \<Rightarrow> string \<Rightarrow> nat \<Rightarrow> task list \<Rightarrow> gameState \<Rightarrow> gameState \<times> emit list" where
  "join_lobby sid name k shuffled s =
    (let s1 = s\<lparr>players := AList.update sid (newPlayer sid name k) (players s)\<rparr>;
         s2 = s1\<lparr>players := AList.map_entry sid (\<lambda>p. p\<lparr>tasks := getRandomTasks shuffled 3\<rparr>)
                               (players s1)\<rparr>
     in (s2, broadcastPlayerList s2))"

text \<open>
  The \<open>while\<close> loop of \<open>start-game\<close>; \<open>draws\<close> are the successive values of
  \<open>Math.floor(Math.random() * players.length)\<close>. \<open>None\<close> means the draws ran out before the
  loop ended.
\<close>

fun pickImpostors :: "nat \<Rightarrow> nat list \<Rightarrow> nat list \<Rightarrow> nat list option" where
  "pickImpostors impostorCount [] impostorIndices =
    (if length impostorIndices < impostorCount then None else Some impostorIndices)"
| "pickImpostors impostorCount (randomIndex # draws) impostorIndices =
    (if length impostorIndices < impostorCount then
       (if randomIndex \<in> set impostorIndices then pickImpostors impostorCount draws impostorIndices
        else pickImpostors impostorCount draws (impostorIndices @ [randomIndex]))
     else Some impostorIndices)"

text \<open>
  The body of the \<open>forEach\<close> that assigns the roles and resets the round fields, and the
  messages sent to one player. A player is registered under the id of its socket and is
  removed when that socket disconnects, so \<open>io.sockets.sockets.get(player.id)\<close> finds the
  socket; \<open>player.taskProgress\<close> is an object and so truthy.
\<close>

definition assignRound :: "nat list \<Rightarrow> nat \<Rightarrow> player \<Rightarrow> player" where
  "assignRound impostorIndices index p =
    p\<lparr>role := Some (if index \<in> set impostorIndices then Impostor else Crewmate),
      isAlive := True, sabotageCount := 0, vote := None, taskProgress := blankProgress\<rparr>"

definition startMessages :: "player list \<Rightarrow> player \<Rightarrow> emit list" where
  "startMessages ps p =
    ToSocket (player_id p)
       (GameStarted (role p) (tasks p)
          (map (\<lambda>q. (player_id q, player_name q, color q, role q, isAlive q)) ps))
     # (if role p = Some Crewmate then [ToSocket (player_id p) (RestoreTaskProgress (taskProgress p))]
        else [])"

definition start_game :: "nat list \<Rightarrow> gameState \<Rightarrow> (gameState \<times> emit list) option" where
  "start_game draws s =
    (if length (players s) \<ge> 1 then
       (let impostorCount = (if length (players s) \<ge> 2 then 1 else 0 :: nat) in
        case (if impostorCount > 0 then pickImpostors impostorCount draws [] else Some []) of
          None \<Rightarrow> None
        | Some impostorIndices \<Rightarrow>
           (let s1 = s\<lparr>players := map (\<lambda>(index, (k, p)). (k, assignRound impostorIndices index p))
                                      (enumerate 0 (players s))\<rparr>;
                s2 = startGameTimer s1
            in Some (s2, concat (map (startMessages (playerValues s2)) (playerValues s2)))))
     else Some (s, []))"

definition task_progress :: "ident \<Rightarrow> string \<Rightarrow> string \<Rightarrow> string \<Rightarrow> gameState \<Rightarrow> gameState \<times> emit list" where
  "task_progress sid tk progress screenData s =
    (case map_of (players s) sid of
       Some p \<Rightarrow>
         if role p = Some Crewmate
         then (s, [ToOthers sid (CrewmateActivity sid (player_name p) tk progress screenData)])
         else (s, [])
     | None \<Rightarrow> (s, []))"

definition save_task_progress :: "ident \<Rightarrow> taskProgress \<Rightarrow> gameState \<Rightarrow> gameState \<times> emit list" where
  "save_task_progress sid tp s =
    (case map_of (players s) sid of
       Some p \<Rightarrow>
         if role p = Some Crewmate then
           (let s1 = s\<lparr>players := AList.map_entry sid (\<lambda>q. q\<lparr>taskProgress := tp\<rparr>) (players s)\<rparr>
            in if tasksCompleted tp \<ge> 3 then checkGameEnd s1 else (s1, []))
         else (s, [])
     | None \<Rightarrow> (s, []))"

definition task_completed :: "ident \<Rightarrow> string \<Rightarrow> int \<Rightarrow> gameState \<Rightarrow> gameState \<times> emit list" where
  "task_completed sid taskId n s =
    (case map_of (players s) sid of
       Some p \<Rightarrow>
         if role p = Some Crewmate then
           (case checkGameEnd
                   (s\<lparr>players := AList.map_entry sid
                        (\<lambda>q. q\<lparr>taskProgress := (taskProgress q)\<lparr>tasksCompleted := n\<rparr>\<rparr>) (players s)\<rparr>) of
              (s2, out2) \<Rightarrow> (s2, ToRoom (TaskCompletedUpdate sid (player_name p) n 3) # out2))
         else (s, [])
     | None \<Rightarrow> (s, []))"

text \<open>\<open>Math.ceil(a / b)\<close> on integers, \<open>b > 0\<close>.\<close>

definition ceilDiv :: "int \<Rightarrow> int \<Rightarrow> int" where
  "ceilDiv a b = - ((- a) div b)"

definition cooldownRemaining :: "gameState \<Rightarrow> ident \<Rightarrow> int \<Rightarrow> int" where
  "cooldownRemaining s impostorId now =
    30000 - (now - (case map_of (killCooldowns s) impostorId of None \<Rightarrow> 0 | Some lastKillTime \<Rightarrow> lastKillTime))"

definition attempt_sabotage ::
  "ident \<Rightarrow> ident \<Rightarrow> bool \<Rightarrow> string \<Rightarrow> int \<Rightarrow> gameState \<Rightarrow> gameState \<times> emit list" where
  "attempt_sabotage sid targetPlayerId success sabotageType now s =
    (case map_of (players s) sid of
       None \<Rightarrow> (s, [])
     | Some impostor \<Rightarrow>
        (case map_of (players s) targetPlayerId of
           None \<Rightarrow> (s, [])
         | Some targetPlayer \<Rightarrow>
            if role impostor = Some Impostor \<and> role targetPlayer = Some Crewmate then
              (if cooldownRemaining s (player_id impostor) now > 0 \<and> sabotageCount targetPlayer \<ge> 2
               then (s, [ToSocket sid
                           (KillCooldown (ceilDiv (cooldownRemaining s (player_id impostor) now) 1000))])
               else
                (let n = sabotageCount targetPlayer + 1;
                     s1 = s\<lparr>players := AList.map_entry targetPlayerId (\<lambda>p. p\<lparr>sabotageCount := n\<rparr>)
                                          (players s)\<rparr>;
                     out1 = [ToRoom (SabotageAttempt (player_name impostor) (player_name targetPlayer)
                                       n success sabotageType)]
                 in if n \<ge> 3 then
                      (case checkGameEnd
                              (s1\<lparr>players := AList.map_entry targetPlayerId (\<lambda>p. p\<lparr>isAlive := False\<rparr>)
                                                (players s1),
                                  killCooldowns := AList.update (player_id impostor) now (killCooldowns s1)\<rparr>) of
                         (s3, out3) \<Rightarrow>
                           (s3, out1 @ [ToRoom (PlayerKilled (player_id targetPlayer) (player_name targetPlayer)
                                                   (player_name impostor)),
                                        ToSocket sid (KillCooldownActive 30)] @ out3))
                    else (s1, out1)))
            else (s, [])))"

definition trigger_sabotage :: "ident \<Rightarrow> string \<Rightarrow> ident option \<Rightarrow> gameState \<Rightarrow> gameState \<times> emit list" where
  "trigger_sabotage sid sabotageType targetPlayerId s =
    (case map_of (players s) sid of
       Some impostor \<Rightarrow>
         if role impostor = Some Impostor
         then (s, [ToOthers sid (SabotageTriggered sabotageType (player_name impostor) targetPlayerId)])
         else (s, [])
     | None \<Rightarrow> (s, []))"

definition report_body :: "ident \<Rightarrow> string \<Rightarrow> gameState \<Rightarrow> gameState \<times> emit list" where
  "report_body sid location s =
    (case map_of (players s) sid of
       Some reporter \<Rightarrow>
         if isAlive reporter then
           (case startEmergencyMeeting s of
              (s1, out1) \<Rightarrow> (s1, ToRoom (BodyReported (player_name reporter) location) # out1))
         else (s, [])
     | None \<Rightarrow> (s, []))"

definition emergency_meeting :: "ident \<Rightarrow> gameState \<Rightarrow> gameState \<times> emit list" where
  "emergency_meeting sid s =
    (case map_of (players s) sid of
       Some caller \<Rightarrow> if isAlive caller then startEmergencyMeeting s else (s, [])
     | None \<Rightarrow> (s, []))"

definition allAliveVoted :: "gameState \<Rightarrow> bool" where
  "allAliveVoted s =
    (length (filter (\<lambda>p. vote p \<noteq> None) (filter isAlive (playerValues s)))
       = length (filter isAlive (playerValues s)))"

definition submit_vote :: "ident \<Rightarrow> string option \<Rightarrow> gameState \<Rightarrow> gameState \<times> emit list" where
  "submit_vote sid votedFor s =
    (case map_of (players s) sid of
       Some p \<Rightarrow>
         if isAlive p then
           (let s1 = s\<lparr>players := AList.map_entry sid (\<lambda>q. q\<lparr>vote := votedFor\<rparr>) (players s)\<rparr>;
                out1 = [ToRoom (VoteSubmitted (player_id p) (player_name p))]
            in if allAliveVoted s1
               then (case processVotes s1 of (s2, out2) \<Rightarrow> (s2, out1 @ out2))
               else (s1, out1))
         else (s, [])
     | None \<Rightarrow> (s, []))"

definition chat_message :: "ident \<Rightarrow> string \<Rightarrow> gameState \<Rightarrow> gameState \<times> emit list" where
  "chat_message sid msg s =
    (case map_of (players s) sid of
       Some p \<Rightarrow> (s, [ToRoom (ChatMessage (player_name p) msg (color p) (\<not> isAlive p) (role p))])
     | None \<Rightarrow> (s, []))"

definition request_game_state :: "ident \<Rightarrow> gameState \<Rightarrow> gameState \<times> emit list" where
  "request_game_state sid s =
    (case map_of (players s) sid of
       Some p \<Rightarrow>
         (s, ToSocket sid
               (GameStateUpdate
                  (map (\<lambda>q. (player_id q, player_name q, color q, role q, isAlive q,
                             tasksCompleted (taskProgress q))) (playerValues s))
                  (timeRemaining s) (gameTimer s))
             # (if role p = Some Crewmate then [ToSocket sid (RestoreTaskProgress (taskProgress p))]
                else []))
     | None \<Rightarrow> (s, []))"

definition disconnect :: "ident \<Rightarrow> gameState \<Rightarrow> gameState \<times> emit list" where
  "disconnect sid s =
    (case map_of (players s) sid of
       Some p \<Rightarrow>
         (let s1 = s\<lparr>players := AList.delete sid (players s)\<rparr>;
              out = ToRoom (PlayerDisconnected sid (player_name p)) # broadcastPlayerList s1
          in if length (players s1) = 0 then (s1\<lparr>gameTimer := False\<rparr>, out) else (s1, out))
     | None \<Rightarrow> (s, []))"

section \<open>The server as a transition system\<close>

text \<open>
  One event is one run of a handler or of a timer callback; the server runs them one at a
  time. The random choices and the clock are fields of the event.
\<close>

datatype event =
    JoinLobby ident string nat "task list"
  | StartGame "nat list"
  | TaskProgress ident string string string
  | SaveTaskProgress ident taskProgress
  | TaskCompleted ident string int
  | AttemptSabotage ident ident bool string int
  | TriggerSabotage ident string "ident option"
  | ReportBody ident string
  | EmergencyMeeting ident
  | SubmitVote ident "string option"
  | ChatMessageSent ident string
  | RequestGameState ident
  | Disconnect ident
  | GameTimerFires
  | MeetingTimerFires
  | LobbyResetFires "ident list"

fun step :: "event \<Rightarrow> gameState \<Rightarrow> (gameState \<times> emit list) option" where
  "step (JoinLobby sid name k shuffled) s = Some (join_lobby sid name k shuffled s)"
| "step (StartGame draws) s = start_game draws s"
| "step (TaskProgress sid tk progress screenData) s = Some (task_progress sid tk progress screenData s)"
| "step (SaveTaskProgress sid tp) s = Some (save_task_progress sid tp s)"
| "step (TaskCompleted sid taskId n) s = Some (task_completed sid taskId n s)"
| "step (AttemptSabotage sid targetPlayerId success sabotageType now) s =
     Some (attempt_sabotage sid targetPlayerId success sabotageType now s)"
| "step (TriggerSabotage sid sabotageType targetPlayerId) s =
     Some (trigger_sabotage sid sabotageType targetPlayerId s)"
| "step (ReportBody sid location) s = Some (report_body sid location s)"
| "step (EmergencyMeeting sid) s = Some (emergency_meeting sid s)"
| "step (SubmitVote sid votedFor) s = Some (submit_vote sid votedFor s)"
| "step (ChatMessageSent sid msg) s = Some (chat_message sid msg s)"
| "step (RequestGameState sid) s = Some (request_game_state sid s)"
| "step (Disconnect sid) s = Some (disconnect sid s)"
| "step GameTimerFires s = Some (gameTimerTick s)"
| "step MeetingTimerFires s = Some (meetingTimeout s)"
| "step (LobbyResetFires captured) s = Some (endGameReset captured s)"

text \<open>A run of events from a state; the emitted messages are collected in order.\<close>

fun run :: "event list \<Rightarrow> gameState \<Rightarrow> (gameState \<times> emit list) option" where
  "run [] s = Some (s, [])"
| "run (e # es) s =
    (case step e s of
       None \<Rightarrow> None
     | Some (s1, out1) \<Rightarrow>
        (case run es s1 of None \<Rightarrow> None | Some (s2, out2) \<Rightarrow> Some (s2, out1 @ out2)))"

section \<open>Notions used in the statements\<close>

definition stateAfter :: "event list \<Rightarrow> gameState \<Rightarrow> gameState option" where
  "stateAfter es s = map_option fst (run es s)"

definition emitted :: "event list \<Rightarrow> gameState \<Rightarrow> emit list option" where
  "emitted es s = map_option snd (run es s)"

definition emits :: "event list \<Rightarrow> gameState \<Rightarrow> emit \<Rightarrow> bool" where
  "emits es s m = (case run es s of None \<Rightarrow> False | Some (s1, out) \<Rightarrow> m \<in> set out)"

fun isPlayerKilled :: "emit \<Rightarrow> bool" where
  "isPlayerKilled (ToRoom (PlayerKilled pid pname killer)) = True"
| "isPlayerKilled m = False"

fun isVoteSubmitted :: "emit \<Rightarrow> bool" where
  "isVoteSubmitted (ToRoom (VoteSubmitted pid pname)) = True"
| "isVoteSubmitted m = False"

fun isRestore :: "emit \<Rightarrow> bool" where
  "isRestore (ToSocket sid (RestoreTaskProgress tp)) = True"
| "isRestore m = False"

text \<open>The number of players whose current vote is \<open>t\<close>.\<close>

definition ballots :: "gameState \<Rightarrow> string \<Rightarrow> int" where
  "ballots s t = int (length (filter (\<lambda>p. vote p = Some t) (playerValues s)))"

definition impostors :: "gameState \<Rightarrow> player list" where
  "impostors s = filter (\<lambda>p. role p = Some Impostor) (playerValues s)"

definition crewmates :: "gameState \<Rightarrow> player list" where
  "crewmates s = filter (\<lambda>p. role p = Some Crewmate) (playerValues s)"

text \<open>A sequence of \<open>submit-vote\<close> messages, each a socket id and its \<open>votedFor\<close>.\<close>

fun submitVotes :: "(ident \<times> string option) list \<Rightarrow> gameState \<Rightarrow> gameState \<times> emit list" where
  "submitVotes [] s = (s, [])"
| "submitVotes ((sid, votedFor) # calls) s =
    (case submit_vote sid votedFor s of
       (s1, out1) \<Rightarrow> (case submitVotes calls s1 of (s2, out2) \<Rightarrow> (s2, out1 @ out2)))"

text \<open>What a sequence of messages resolved: everything emitted but the vote notices.\<close>

definition resolution :: "emit list \<Rightarrow> emit list" where
  "resolution out = filter (\<lambda>m. \<not> isVoteSubmitted m) out"

text \<open>
  The values the runtime supplies: \<open>Math.floor(Math.random() * n)\<close> is below \<open>n\<close>, and
  sorting a copy of the catalog rearranges it.
\<close>

fun envOk :: "event \<Rightarrow> gameState \<Rightarrow> bool" where
  "envOk (JoinLobby sid name k shuffled) s = (k < 8 \<and> mset shuffled = mset CREWMATE_TASKS)"
| "envOk (StartGame draws) s = list_all (\<lambda>d. d < length (players s)) draws"
| "envOk e s = True"

inductive reachable :: "gameState \<Rightarrow> bool" where
  reachable_init: "reachable initialState"
| reachable_step: "reachable s \<Longrightarrow> envOk e s \<Longrightarrow> step e s = Some (s', out) \<Longrightarrow> reachable s'"

definition tasksOk :: "player \<Rightarrow> bool" where
  "tasksOk p = (length (tasks p) = 3 \<and> distinct (tasks p) \<and> set (tasks p) \<subseteq> set CREWMATE_TASKS)"

text \<open>A run whose events all carry values the runtime can supply.\<close>

fun envOkRun :: "event list \<Rightarrow> gameState \<Rightarrow> bool" where
  "envOkRun [] s = True"
| "envOkRun (e # es) s =
    (envOk e s \<and> (case step e s of None \<Rightarrow> False | Some (s1, out1) \<Rightarrow> envOkRun es s1))"

text \<open>The invariant behind the task sets: every registered player holds a proper one.\<close>

definition tasksInv :: "gameState \<Rightarrow> bool" where
  "tasksInv s = (\<forall>x \<in> set (players s). tasksOk (snd x))"

text \<open>The ballots for \<open>k\<close> among a list of players.\<close>

definition cnt :: "player list \<Rightarrow> string \<Rightarrow> int" where
  "cnt ps k = int (length (filter (\<lambda>p. vote p = Some k) ps))"

text \<open>
  What \<open>submit-vote\<close> does to the registry when it does not resolve the meeting, a whole
  list of such messages, and who may vote: a registered player who is alive.
\<close>

definition setVote :: "ident \<Rightarrow> string option \<Rightarrow> gameState \<Rightarrow> gameState" where
  "setVote sid votedFor s =
    s\<lparr>players := AList.map_entry sid (\<lambda>p. if isAlive p then p\<lparr>vote := votedFor\<rparr> else p) (players s)\<rparr>"

definition castVotes :: "(ident \<times> string option) list \<Rightarrow> gameState \<Rightarrow> gameState" where
  "castVotes calls s = fold (\<lambda>c. setVote (fst c) (snd c)) calls s"

definition eligible :: "gameState \<Rightarrow> ident \<Rightarrow> bool" where
  "eligible s sid = (case map_of (players s) sid of None \<Rightarrow> False | Some p \<Rightarrow> isAlive p)"

subsection \<open>Scenarios\<close>

text \<open>
  Four sockets join, a round starts with the first as impostor, and the impostor hits Ann
  three times; the clock values are milliseconds.
\<close>

definition joined4 :: "event list" where
  "joined4 =
    [JoinLobby ''i'' ''Ivy'' 0 CREWMATE_TASKS, JoinLobby ''a'' ''Ann'' 1 CREWMATE_TASKS,
     JoinLobby ''b'' ''Bob'' 2 CREWMATE_TASKS, JoinLobby ''c'' ''Cy'' 3 CREWMATE_TASKS]"

definition round4 :: "event list" where
  "round4 = joined4 @ [StartGame [0]]"

definition annKilled :: "event list" where
  "annKilled =
    round4 @ [AttemptSabotage ''i'' ''a'' True ''usb'' 100000,
              AttemptSabotage ''i'' ''a'' True ''usb'' 101000,
              AttemptSabotage ''i'' ''a'' True ''usb'' 102000]"

definition bobHitTwice :: "event list" where
  "bobHitTwice =
    annKilled @ [AttemptSabotage ''i'' ''b'' True ''usb'' 103000,
                 AttemptSabotage ''i'' ''b'' True ''usb'' 104000]"

text \<open>A player in a running round, as \<open>join-lobby\<close> and \<open>start-game\<close> leave it.\<close>

definition member :: "ident \<Rightarrow> string \<Rightarrow> nat \<Rightarrow> role \<Rightarrow> bool \<Rightarrow> int \<Rightarrow> player" where
  "member sid name k r alive n =
    \<lparr>player_id = sid, player_name = name, role = Some r, room = ''main'', isAlive = alive,
     tasks = take 3 CREWMATE_TASKS, sabotageCount = n, color = getRandomColor k,
     taskProgress = blankProgress, vote = None\<rparr>"

definition bobAtTwo :: gameState where
  "bobAtTwo =
    \<lparr>players = [(''i'', member ''i'' ''Ivy'' 0 Impostor True 0),
                (''a'', member ''a'' ''Ann'' 1 Crewmate False 3),
                (''b'', member ''b'' ''Bob'' 2 Crewmate True 2),
                (''c'', member ''c'' ''Cy'' 3 Crewmate True 0)],
     killCooldowns = [(''i'', 102000)], gameTimer = True, timeRemaining = 300\<rparr>"

definition savedOnce :: taskProgress where
  "savedOnce =
    \<lparr>tasksCompleted = 1, task1 = \<lparr>completed = True, data = Some ''log-17''\<rparr>,
     task2 = blankSlot, task3 = blankSlot\<rparr>"

definition annSaved :: "event list" where
  "annSaved = round4 @ [SaveTaskProgress ''a'' savedOnce]"

definition annSavedState :: gameState where
  "annSavedState =
    \<lparr>players = [(''i'', member ''i'' ''Ivy'' 0 Impostor True 0),
                (''a'', (member ''a'' ''Ann'' 1 Crewmate True 0)\<lparr>taskProgress := savedOnce\<rparr>),
                (''b'', member ''b'' ''Bob'' 2 Crewmate True 0),
                (''c'', member ''c'' ''Cy'' 3 Crewmate True 0)],
     killCooldowns = [], gameTimer = True, timeRemaining = 300\<rparr>"

definition ghostVote :: "event list" where
  "ghostVote =
    round4 @ [EmergencyMeeting ''a'', SubmitVote ''a'' (Some ''c''), SubmitVote ''b'' (Some ''c''),
              Disconnect ''c'']"

definition round3 :: "event list" where
  "round3 =
    [JoinLobby ''i'' ''Ivy'' 0 CREWMATE_TASKS, JoinLobby ''a'' ''Ann'' 1 CREWMATE_TASKS,
     JoinLobby ''b'' ''Bob'' 2 CREWMATE_TASKS, StartGame [0]]"

definition roundWon :: "event list" where
  "roundWon =
    round3 @ [AttemptSabotage ''i'' ''a'' True ''usb'' 100000,
              AttemptSabotage ''i'' ''a'' True ''usb'' 101000,
              AttemptSabotage ''i'' ''a'' True ''usb'' 102000]"

definition roundWonState :: gameState where
  "roundWonState =
    \<lparr>players = [(''i'', member ''i'' ''Ivy'' 0 Impostor True 0),
                (''a'', member ''a'' ''Ann'' 1 Crewmate False 3),
                (''b'', member ''b'' ''Bob'' 2 Crewmate True 0)],
     killCooldowns = [(''i'', 102000)], gameTimer = False, timeRemaining = 300\<rparr>"

definition nextRound :: "event list" where
  "nextRound =
    [LobbyResetFires [''i'', ''a'', ''b''], Disconnect ''b'', StartGame [0],
     AttemptSabotage ''i'' ''a'' True ''usb'' 118000,
     AttemptSabotage ''i'' ''a'' True ''usb'' 119000]"

definition nextRoundState :: gameState where
  "nextRoundState =
    \<lparr>players = [(''i'', member ''i'' ''Ivy'' 0 Impostor True 0),
                (''a'', member ''a'' ''Ann'' 1 Crewmate True 2)],
     killCooldowns = [(''i'', 102000)], gameTimer = True, timeRemaining = 300\<rparr>"

definition lobby4 :: gameState where
  "lobby4 =
    \<lparr>players = [(''i'', (newPlayer ''i'' ''Ivy'' 0)\<lparr>tasks := take 3 CREWMATE_TASKS\<rparr>),
                (''a'', (newPlayer ''a'' ''Ann'' 1)\<lparr>tasks := take 3 CREWMATE_TASKS\<rparr>),
                (''b'', (newPlayer ''b'' ''Bob'' 2)\<lparr>tasks := take 3 CREWMATE_TASKS\<rparr>),
                (''c'', (newPlayer ''c'' ''Cy'' 3)\<lparr>tasks := take 3 CREWMATE_TASKS\<rparr>)],
     killCooldowns = [], gameTimer = False, timeRemaining = 300\<rparr>"

definition voting :: "string \<Rightarrow> string \<Rightarrow> string \<Rightarrow> string \<Rightarrow> gameState" where
  "voting vi va vb vc =
    \<lparr>players = [(''i'', (member ''i'' ''Ivy'' 0 Impostor True 0)\<lparr>vote := Some vi\<rparr>),
                (''a'', (member ''a'' ''Ann'' 1 Crewmate True 0)\<lparr>vote := Some va\<rparr>),
                (''b'', (member ''b'' ''Bob'' 2 Crewmate True 0)\<lparr>vote := Some vb\<rparr>),
                (''c'', (member ''c'' ''Cy'' 3 Crewmate True 0)\<lparr>vote := Some vc\<rparr>)],
     killCooldowns = [], gameTimer = True, timeRemaining = 300\<rparr>"

definition tiedVote :: gameState where
  "tiedVote = voting ''a'' ''i'' ''a'' ''i''"

definition majorityVote :: gameState where
  "majorityVote = voting ''a'' ''i'' ''i'' ''i''"

definition meetingOpen :: gameState where
  "meetingOpen =
    \<lparr>players = [(''i'', member ''i'' ''Ivy'' 0 Impostor True 0),
                (''a'', member ''a'' ''Ann'' 1 Crewmate True 0),
                (''b'', member ''b'' ''Bob'' 2 Crewmate True 0),
                (''c'', member ''c'' ''Cy'' 3 Crewmate True 0)],
     killCooldowns = [], gameTimer = True, timeRemaining = 300\<rparr>"

definition fourBallots :: "(ident \<times> string option) list" where
  "fourBallots = [(''i'', Some ''a''), (''a'', Some ''i''), (''b'', Some ''i''), (''c'', Some ''i'')]"

definition protoTie :: "event list" where
  "protoTie =
    round4 @ [EmergencyMeeting ''a'', SubmitVote ''i'' (Some ''a''),
              SubmitVote ''a'' (Some ''constructor''), SubmitVote ''b'' (Some ''a''),
              SubmitVote ''c'' (Some ''constructor'')]"

section \<open>Basic facts\<close>

lemma map_of_update_same: "map_of (AList.update k v al) k = Some v"
  by (simp add: AList.update_conv')

lemma map_of_update_other: "k' \<noteq> k \<Longrightarrow> map_of (AList.update k v al) k' = map_of al k'"
  by (simp add: AList.update_conv')

lemma map_fst_update_present: "k \<in> fst ` set al \<Longrightarrow> map fst (AList.update k v al) = map fst al"
  by (induction al) auto

lemma map_of_map_entry_same: "map_of (AList.map_entry k f al) k = map_option f (map_of al k)"
  by (simp add: AList.map_of_map_entry split: option.splits)

lemma map_of_map_entry_other: "k' \<noteq> k \<Longrightarrow> map_of (AList.map_entry k f al) k' = map_of al k'"
  by (simp add: AList.map_of_map_entry)

lemma map_fst_map_entry: "map fst (AList.map_entry k f al) = map fst al"
  by (induction al) auto

lemma checkGameEnd_players: "players (fst (checkGameEnd s)) = players s"
  by (simp add: checkGameEnd_def endGame_def split: option.splits prod.splits)

lemma checkGameEnd_killCooldowns: "killCooldowns (fst (checkGameEnd s)) = killCooldowns s"
  by (simp add: checkGameEnd_def endGame_def split: option.splits prod.splits)

lemma checkGameEnd_frame:
  assumes "checkGameEnd s = (s', out)"
  shows "players s' = players s \<and> killCooldowns s' = killCooldowns s
       \<and> timeRemaining s' = timeRemaining s \<and> \<not> list_ex isPlayerKilled out \<and> resolution out = out"
  using assms
  by (auto simp add: checkGameEnd_def endGame_def resolution_def split: option.splits prod.splits)

lemma ceilDiv_bounds: "1000 * (ceilDiv r 1000 - 1) < r \<and> r \<le> 1000 * ceilDiv r 1000"
proof -
  define q where "q = (- r) div 1000"
  define m where "m = (- r) mod 1000"
  have e: "q * 1000 + m = - r"
    unfolding q_def m_def by (rule div_mult_mod_eq)
  have m: "0 \<le> m" "m < 1000"
    unfolding m_def by simp_all
  have c: "ceilDiv r 1000 = - q"
    by (simp add: ceilDiv_def q_def)
  have "1000 * (ceilDiv r 1000 - 1) < r"
    unfolding c using e m by (simp add: algebra_simps)
  moreover have "r \<le> 1000 * ceilDiv r 1000"
    unfolding c using e m by (simp add: algebra_simps)
  ultimately show ?thesis by simp
qed

lemma bobHitTwice_state: "stateAfter bobHitTwice initialState = Some bobAtTwo"
  by code_simp

lemma start_game_players:
  assumes "start_game draws s = Some (s', out)"
  shows "\<exists>ix. players s' = map (\<lambda>(index, (k, p)). (k, assignRound ix index p)) (enumerate 0 (players s))
           \<and> (length (players s) \<ge> 2 \<longrightarrow> pickImpostors 1 draws [] = Some ix)
           \<and> (length (players s) < 2 \<longrightarrow> ix = [])
           \<and> out = concat (map (startMessages (playerValues s')) (playerValues s'))
           \<and> killCooldowns s' = killCooldowns s"
proof (cases "players s = []")
  case True
  then show ?thesis using assms
    by (auto simp add: start_game_def playerValues_def intro: exI [of _ "[]"])
next
  case False
  then have "length (players s) \<ge> 1" by (cases "players s") simp_all
  then show ?thesis using assms
    by (auto simp add: start_game_def Let_def startGameTimer_def split: if_splits option.splits)
qed

lemma map_fst_enumerate:
  "map fst (map (\<lambda>(index, (k, p)). (k, f index p)) (enumerate n xs)) = map fst xs"
  by (induction xs arbitrary: n) auto

lemma start_game_resets:
  assumes "start_game draws s = Some (s', out)" "players s \<noteq> []" "p' \<in> set (playerValues s')"
  shows "isAlive p' \<and> sabotageCount p' = 0 \<and> vote p' = None \<and> taskProgress p' = blankProgress \<and> role p' \<noteq> None"
proof -
  from start_game_players [OF assms(1)] obtain ix where
    ps: "players s' = map (\<lambda>(index, (k, p)). (k, assignRound ix index p)) (enumerate 0 (players s))"
    by blast
  from assms(3) obtain i k p where "p' = assignRound ix i p"
    unfolding playerValues_def ps by (auto simp add: in_set_enumerate_eq)
  then show ?thesis by (simp add: assignRound_def)
qed

lemma start_game_restore:
  assumes "start_game draws s = Some (s', out)" "players s \<noteq> []"
  shows "(\<forall>p' \<in> set (playerValues s'). role p' = Some Crewmate \<longrightarrow>
            ToSocket (player_id p') (RestoreTaskProgress blankProgress) \<in> set out)
       \<and> (\<forall>m \<in> set out. isRestore m \<longrightarrow> (\<exists>sid. m = ToSocket sid (RestoreTaskProgress blankProgress)))"
proof -
  from start_game_players [OF assms(1)] have
    out: "out = concat (map (startMessages (playerValues s')) (playerValues s'))"
    by blast
  have bl: "\<And>p'. p' \<in> set (playerValues s') \<Longrightarrow> taskProgress p' = blankProgress"
    using start_game_resets [OF assms] by blast
  show ?thesis
    unfolding out using bl by (auto simp add: startMessages_def)
qed

lemma annSaved_state: "stateAfter annSaved initialState = Some annSavedState"
  by code_simp

lemma Some_the: "x \<noteq> None \<Longrightarrow> x = Some (fst (the x), snd (the x))"
  by auto

section \<open>The sabotage handler\<close>

text \<open>
  C2, as the code has it. For an impostor whose last recorded kill is less than 30 seconds
  old, \<open>attempt-sabotage\<close> against a crewmate is rejected with a \<open>kill-cooldown\<close> notice
  exactly when the target's \<open>sabotageCount\<close> is already 2 or more, that is, when the hit
  would bring the target to the threshold of 3; the state is then unchanged and the notice
  carries the remaining time rounded up to whole seconds. Below 2 the count goes up by one
  whatever the cooldown.
\<close>

theorem attempt_sabotage_cooldown_guard:
  assumes imp: "map_of (players s) sid = Some impostor" "role impostor = Some Impostor"
    and tgt: "map_of (players s) targetPlayerId = Some targetPlayer"
             "role targetPlayer = Some Crewmate"
    and last: "map_of (killCooldowns s) (player_id impostor) = Some lastKillTime"
    and active: "now - lastKillTime < 30000"
  shows "((attempt_sabotage sid targetPlayerId success sabotageType now s
            = (s, [ToSocket sid (KillCooldown (ceilDiv (30000 - (now - lastKillTime)) 1000))]))
          \<longleftrightarrow> sabotageCount targetPlayer \<ge> 2)
       \<and> (sabotageCount targetPlayer < 2 \<longrightarrow>
            map_option sabotageCount
              (map_of (players (fst (attempt_sabotage sid targetPlayerId success sabotageType now s)))
                 targetPlayerId)
            = Some (sabotageCount targetPlayer + 1))
       \<and> 1000 * (ceilDiv (30000 - (now - lastKillTime)) 1000 - 1) < 30000 - (now - lastKillTime)
       \<and> 30000 - (now - lastKillTime) \<le> 1000 * ceilDiv (30000 - (now - lastKillTime)) 1000"
proof -
  have cr: "cooldownRemaining s (player_id impostor) now = 30000 - (now - lastKillTime)"
    by (simp add: cooldownRemaining_def last)
  have rejected: "(attempt_sabotage sid targetPlayerId success sabotageType now s
            = (s, [ToSocket sid (KillCooldown (ceilDiv (30000 - (now - lastKillTime)) 1000))]))
          \<longleftrightarrow> sabotageCount targetPlayer \<ge> 2"
  proof (cases "sabotageCount targetPlayer \<ge> 2")
    case True
    then show ?thesis
      using active by (simp add: attempt_sabotage_def imp tgt cr)
  next
    case False
    then have "snd (attempt_sabotage sid targetPlayerId success sabotageType now s)
        = [ToRoom (SabotageAttempt (player_name impostor) (player_name targetPlayer)
                     (sabotageCount targetPlayer + 1) success sabotageType)]"
      by (simp add: attempt_sabotage_def imp tgt Let_def)
    then show ?thesis
      using False by auto
  qed
  have counted: "map_option sabotageCount
              (map_of (players (fst (attempt_sabotage sid targetPlayerId success sabotageType now s)))
                 targetPlayerId)
            = Some (sabotageCount targetPlayer + 1)" if "sabotageCount targetPlayer < 2"
    using that by (simp add: attempt_sabotage_def imp tgt Let_def map_of_map_entry_same)
  from rejected counted ceilDiv_bounds [of "30000 - (now - lastKillTime)"] show ?thesis
    by blast
qed

theorem attempt_sabotage_cooldown_guard_witness:
  "map_of (players bobAtTwo) ''i'' = Some (member ''i'' ''Ivy'' 0 Impostor True 0)
   \<and> role (member ''i'' ''Ivy'' 0 Impostor True 0) = Some Impostor
   \<and> map_of (players bobAtTwo) ''b'' = Some (member ''b'' ''Bob'' 2 Crewmate True 2)
   \<and> role (member ''b'' ''Bob'' 2 Crewmate True 2) = Some Crewmate
   \<and> map_of (killCooldowns bobAtTwo) (player_id (member ''i'' ''Ivy'' 0 Impostor True 0)) = Some 102000
   \<and> (105000::int) - 102000 < 30000
   \<and> sabotageCount (member ''b'' ''Bob'' 2 Crewmate True 2) \<ge> 2
   \<and> attempt_sabotage ''i'' ''b'' True ''usb'' 105000 bobAtTwo
       = (bobAtTwo, [ToSocket ''i'' (KillCooldown (ceilDiv (30000 - (105000 - 102000)) 1000))])"
proof -
  have h1: "map_of (players bobAtTwo) ''i'' = Some (member ''i'' ''Ivy'' 0 Impostor True 0)"
    by (simp add: bobAtTwo_def)
  have h2: "role (member ''i'' ''Ivy'' 0 Impostor True 0) = Some Impostor"
    by (simp add: member_def)
  have h3: "map_of (players bobAtTwo) ''b'' = Some (member ''b'' ''Bob'' 2 Crewmate True 2)"
    by (simp add: bobAtTwo_def)
  have h4: "role (member ''b'' ''Bob'' 2 Crewmate True 2) = Some Crewmate"
    by (simp add: member_def)
  have h5: "map_of (killCooldowns bobAtTwo) (player_id (member ''i'' ''Ivy'' 0 Impostor True 0))
              = Some 102000"
    by (simp add: bobAtTwo_def member_def)
  have h6: "(105000::int) - 102000 < 30000"
    by simp
  have h7: "sabotageCount (member ''b'' ''Bob'' 2 Crewmate True 2) \<ge> 2"
    by (simp add: member_def)
  from attempt_sabotage_cooldown_guard [OF h1 h2 h3 h4 h5 h6, of True "''usb''"] h7
  have "attempt_sabotage ''i'' ''b'' True ''usb'' 105000 bobAtTwo
       = (bobAtTwo, [ToSocket ''i'' (KillCooldown (ceilDiv (30000 - (105000 - 102000)) 1000))])"
    by blast
  with h1 h2 h3 h4 h5 h6 h7 show ?thesis
    by blast
qed

text \<open>
  Against C2 as stated: Bob stands at 2, below the threshold of 3, Ivy killed Ann three
  seconds ago, and the hit is rejected with 27 seconds remaining; Bob's count stays 2.
\<close>

theorem attempt_sabotage_rejected_below_threshold:
  "map_option (map sabotageCount \<circ> playerValues) (stateAfter bobHitTwice initialState)
     = Some [0, 3, 2, 0]
   \<and> emits (bobHitTwice @ [AttemptSabotage ''i'' ''b'' True ''usb'' 105000]) initialState
        (ToSocket ''i'' (KillCooldown 27))
   \<and> map_option (map sabotageCount \<circ> playerValues)
        (stateAfter (bobHitTwice @ [AttemptSabotage ''i'' ''b'' True ''usb'' 105000]) initialState)
     = Some [0, 3, 2, 0]"
  by code_simp

text \<open>
  A hit that the cooldown guard lets through counts whether or not the target is alive,
  and from a count of 2 on it broadcasts \<open>player-killed\<close>. A player who was alive is dead
  after the handler only as its target, with the count raised by one to 3 or more.
\<close>

lemma attempt_sabotage_ignores_isAlive:
  assumes "map_of (players s) sid = Some impostor" and "role impostor = Some Impostor"
    and "map_of (players s) targetPlayerId = Some targetPlayer" and "role targetPlayer = Some Crewmate"
    and "\<not> (cooldownRemaining s (player_id impostor) now > 0 \<and> sabotageCount targetPlayer \<ge> 2)"
  shows "map_option sabotageCount
           (map_of (players (fst (attempt_sabotage sid targetPlayerId success sabotageType now s)))
              targetPlayerId)
         = Some (sabotageCount targetPlayer + 1)"
    and "sabotageCount targetPlayer \<ge> 2 \<Longrightarrow>
         ToRoom (PlayerKilled (player_id targetPlayer) (player_name targetPlayer) (player_name impostor))
           \<in> set (snd (attempt_sabotage sid targetPlayerId success sabotageType now s))"
proof -
  let ?s2 = "s\<lparr>players := AList.map_entry targetPlayerId (\<lambda>p. p\<lparr>isAlive := False\<rparr>)
                 (AList.map_entry targetPlayerId (\<lambda>p. p\<lparr>sabotageCount := sabotageCount targetPlayer + 1\<rparr>)
                    (players s)),
               killCooldowns := AList.update (player_id impostor) now (killCooldowns s)\<rparr>"
  obtain s3 out3 where cg: "checkGameEnd ?s2 = (s3, out3)"
    by (cases "checkGameEnd ?s2")
  from checkGameEnd_frame [OF cg] have p3: "players s3 = players ?s2"
    by simp
  show "map_option sabotageCount
           (map_of (players (fst (attempt_sabotage sid targetPlayerId success sabotageType now s)))
              targetPlayerId)
         = Some (sabotageCount targetPlayer + 1)"
    using assms
    by (auto simp add: attempt_sabotage_def Let_def cg p3 map_of_map_entry_same)
  show "ToRoom (PlayerKilled (player_id targetPlayer) (player_name targetPlayer) (player_name impostor))
           \<in> set (snd (attempt_sabotage sid targetPlayerId success sabotageType now s))"
    if "sabotageCount targetPlayer \<ge> 2"
    using assms that by (auto simp add: attempt_sabotage_def Let_def cg)
qed

lemma attempt_sabotage_kills_at_three:
  assumes "attempt_sabotage sid targetPlayerId success sabotageType now s = (s', out)"
    and "map_of (players s) k = Some p" and "isAlive p"
    and "map_of (players s') k = Some p'" and "\<not> isAlive p'"
  shows "k = targetPlayerId \<and> sabotageCount p' = sabotageCount p + 1 \<and> sabotageCount p' \<ge> 3"
proof -
  show ?thesis
    using assms
    by (auto simp add: attempt_sabotage_def Let_def AList.map_of_map_entry
        split: option.splits if_splits prod.splits dest!: checkGameEnd_frame)
qed

text \<open>
  C1 on the code. The handler never looks at the target's \<open>isAlive\<close>: once the cooldown of
  the first kill has run out (31 seconds and timer ticks later, the round still running
  with 269 seconds left), a fourth hit on the dead Ann raises her count to 4, sets
  \<open>isAlive\<close> to false again, records a new kill time and broadcasts \<open>player-killed\<close> a
  second time in the same round.
\<close>

theorem dead_target_killed_again:
  "map_option (map isAlive \<circ> playerValues) (stateAfter annKilled initialState)
     = Some [True, False, True, True]
   \<and> map_option (map sabotageCount \<circ> playerValues) (stateAfter annKilled initialState)
     = Some [0, 3, 0, 0]
   \<and> map_option gameTimer (stateAfter (annKilled @ replicate 31 GameTimerFires) initialState)
     = Some True
   \<and> map_option timeRemaining (stateAfter (annKilled @ replicate 31 GameTimerFires) initialState)
     = Some 269
   \<and> map_option (map sabotageCount \<circ> playerValues)
        (stateAfter (annKilled @ replicate 31 GameTimerFires
                       @ [AttemptSabotage ''i'' ''a'' True ''usb'' 133000]) initialState)
     = Some [0, 4, 0, 0]
   \<and> map_option (filter isPlayerKilled)
        (emitted (annKilled @ replicate 31 GameTimerFires
                    @ [AttemptSabotage ''i'' ''a'' True ''usb'' 133000]) initialState)
     = Some [ToRoom (PlayerKilled ''a'' ''Ann'' ''Ivy''), ToRoom (PlayerKilled ''a'' ''Ann'' ''Ivy'')]
   \<and> map_option killCooldowns
        (stateAfter (annKilled @ replicate 31 GameTimerFires
                       @ [AttemptSabotage ''i'' ''a'' True ''usb'' 133000]) initialState)
     = Some [(''i'', 133000)]"
  by code_simp

section \<open>Starting a round\<close>

text \<open>
  C4, as the code has it. \<open>start-game\<close> keeps the registry's keys and resets every player:
  alive, accumulator 0, no vote, and the whole task progress replaced by the blank one
  (counter 0, every slot not completed and with no payload), so a payload saved earlier is
  gone. Each crewmate is sent a \<open>restore-task-progress\<close> message, and every such message
  carries the blank progress.
\<close>

theorem start_game_resets_round_fields:
  assumes "start_game draws s = Some (s', out)" and "players s \<noteq> []"
  shows "map fst (players s') = map fst (players s)
       \<and> (\<forall>p' \<in> set (playerValues s').
             isAlive p' \<and> sabotageCount p' = 0 \<and> vote p' = None
             \<and> taskProgress p' = \<lparr>tasksCompleted = 0,
                                    task1 = \<lparr>completed = False, data = None\<rparr>,
                                    task2 = \<lparr>completed = False, data = None\<rparr>,
                                    task3 = \<lparr>completed = False, data = None\<rparr>\<rparr>)
       \<and> (\<forall>p' \<in> set (playerValues s'). role p' = Some Crewmate \<longrightarrow>
             ToSocket (player_id p') (RestoreTaskProgress blankProgress) \<in> set out)
       \<and> (\<forall>m \<in> set out. isRestore m \<longrightarrow>
             (\<exists>sid. m = ToSocket sid (RestoreTaskProgress blankProgress)))"
proof -
  from start_game_players [OF assms(1)] obtain ix where
    ps: "players s' = map (\<lambda>(index, (k, p)). (k, assignRound ix index p)) (enumerate 0 (players s))"
    by blast
  have keys: "map fst (players s') = map fst (players s)"
    unfolding ps by (rule map_fst_enumerate)
  have fields: "\<forall>p' \<in> set (playerValues s').
             isAlive p' \<and> sabotageCount p' = 0 \<and> vote p' = None
             \<and> taskProgress p' = \<lparr>tasksCompleted = 0,
                                    task1 = \<lparr>completed = False, data = None\<rparr>,
                                    task2 = \<lparr>completed = False, data = None\<rparr>,
                                    task3 = \<lparr>completed = False, data = None\<rparr>\<rparr>"
    using start_game_resets [OF assms] by (simp add: blankProgress_def blankSlot_def)
  from keys fields start_game_restore [OF assms] show ?thesis
    by blast
qed

theorem start_game_resets_round_fields_witness:
  "start_game [0] annSavedState \<noteq> None \<and> players annSavedState \<noteq> []
   \<and> map (data \<circ> task1 \<circ> taskProgress) (playerValues annSavedState)
        = [None, Some ''log-17'', None, None]
   \<and> list_all (\<lambda>p'. isAlive p' \<and> sabotageCount p' = 0 \<and> vote p' = None
                      \<and> taskProgress p' = blankProgress)
        (playerValues (fst (the (start_game [0] annSavedState))))
   \<and> map fst (players (fst (the (start_game [0] annSavedState)))) = [''i'', ''a'', ''b'', ''c'']"
proof -
  have h0: "start_game [0] annSavedState \<noteq> None"
    by code_simp
  have h1: "start_game [0] annSavedState
              = Some (fst (the (start_game [0] annSavedState)), snd (the (start_game [0] annSavedState)))"
    using h0 by (rule Some_the)
  have h2: "players annSavedState \<noteq> []"
    by (simp add: annSavedState_def)
  have h3: "map (data \<circ> task1 \<circ> taskProgress) (playerValues annSavedState)
        = [None, Some ''log-17'', None, None]"
    by (simp add: annSavedState_def playerValues_def member_def savedOnce_def blankProgress_def
        blankSlot_def)
  have h4: "map fst (players annSavedState) = [''i'', ''a'', ''b'', ''c'']"
    by (simp add: annSavedState_def)
  from start_game_resets_round_fields [OF h1 h2] h4
  have "list_all (\<lambda>p'. isAlive p' \<and> sabotageCount p' = 0 \<and> vote p' = None
                      \<and> taskProgress p' = blankProgress)
        (playerValues (fst (the (start_game [0] annSavedState))))
     \<and> map fst (players (fst (the (start_game [0] annSavedState)))) = [''i'', ''a'', ''b'', ''c'']"
    by (simp add: list_all_iff blankProgress_def blankSlot_def)
  with h0 h2 h3 show ?thesis
    by blast
qed

text \<open>
  Against C4 as stated: Ann saved a payload in slot 1 during a round; after the next
  \<open>start-game\<close> the slot holds no payload and the restore message sent to her is blank.
\<close>

theorem start_game_discards_saved_payload:
  "map_option (map (data \<circ> task1 \<circ> taskProgress) \<circ> playerValues) (stateAfter annSaved initialState)
     = Some [None, Some ''log-17'', None, None]
   \<and> map_option (map (data \<circ> task1 \<circ> taskProgress) \<circ> playerValues)
        (stateAfter (annSaved @ [StartGame [0]]) initialState)
     = Some [None, None, None, None]
   \<and> emits (annSaved @ [StartGame [0]]) initialState
        (ToSocket ''a'' (RestoreTaskProgress blankProgress))"
  by code_simp

section \<open>Joining\<close>

text \<open>
  C9, as the code has it. \<open>join-lobby\<close> has no error result. When the socket id is already
  registered, the existing record is replaced, at its position in the registry, by a fresh
  one with the new name, no role and newly drawn tasks; all other entries are unchanged and
  the roster is broadcast.
\<close>

theorem join_lobby_overwrites:
  assumes "map_of (players s) sid = Some old"
  shows "map_of (players (fst (join_lobby sid name k shuffled s))) sid
           = Some ((newPlayer sid name k)\<lparr>tasks := getRandomTasks shuffled 3\<rparr>)
       \<and> map fst (players (fst (join_lobby sid name k shuffled s))) = map fst (players s)
       \<and> (\<forall>k'. k' \<noteq> sid \<longrightarrow>
            map_of (players (fst (join_lobby sid name k shuffled s))) k' = map_of (players s) k')
       \<and> snd (join_lobby sid name k shuffled s)
           = [ToRoom (PlayerListUpdate (playerValues (fst (join_lobby sid name k shuffled s))))]"
proof -
  have "(sid, old) \<in> set (players s)"
    using assms by (rule map_of_SomeD)
  then have "sid \<in> fst ` set (players s)"
    by force
  then have keys: "map fst (players (fst (join_lobby sid name k shuffled s))) = map fst (players s)"
    by (simp add: join_lobby_def Let_def map_fst_map_entry map_fst_update_present)
  have new: "map_of (players (fst (join_lobby sid name k shuffled s))) sid
           = Some ((newPlayer sid name k)\<lparr>tasks := getRandomTasks shuffled 3\<rparr>)"
    by (simp add: join_lobby_def Let_def map_of_map_entry_same map_of_update_same)
  have others: "\<forall>k'. k' \<noteq> sid \<longrightarrow>
           map_of (players (fst (join_lobby sid name k shuffled s))) k' = map_of (players s) k'"
    by (simp add: join_lobby_def Let_def map_of_map_entry_other map_of_update_other)
  have out: "snd (join_lobby sid name k shuffled s)
           = [ToRoom (PlayerListUpdate (playerValues (fst (join_lobby sid name k shuffled s))))]"
    by (simp add: join_lobby_def Let_def broadcastPlayerList_def)
  from keys new others out show ?thesis
    by blast
qed

theorem join_lobby_overwrites_witness:
  "map_of (players bobAtTwo) ''i'' = Some (member ''i'' ''Ivy'' 0 Impostor True 0)
   \<and> map_of (players (fst (join_lobby ''i'' ''Eve'' 5 CREWMATE_TASKS bobAtTwo))) ''i''
       = Some ((newPlayer ''i'' ''Eve'' 5)\<lparr>tasks := getRandomTasks CREWMATE_TASKS 3\<rparr>)
   \<and> map fst (players (fst (join_lobby ''i'' ''Eve'' 5 CREWMATE_TASKS bobAtTwo)))
       = map fst (players bobAtTwo)"
proof -
  have h1: "map_of (players bobAtTwo) ''i'' = Some (member ''i'' ''Ivy'' 0 Impostor True 0)"
    by (simp add: bobAtTwo_def)
  from join_lobby_overwrites [OF h1, of "''Eve''" 5 CREWMATE_TASKS] h1 show ?thesis
    by blast
qed

text \<open>
  Against C9 as stated: Ivy, the impostor of a running round, joins again under the name
  Eve; her record is overwritten (new name, role \<open>null\<close>) and nothing fails.
\<close>

theorem join_lobby_replaces_existing_record:
  "map_option (map player_name \<circ> playerValues) (stateAfter bobHitTwice initialState)
     = Some [''Ivy'', ''Ann'', ''Bob'', ''Cy'']
   \<and> map_option (map role \<circ> playerValues) (stateAfter bobHitTwice initialState)
     = Some [Some Impostor, Some Crewmate, Some Crewmate, Some Crewmate]
   \<and> map_option (map player_name \<circ> playerValues)
        (stateAfter (bobHitTwice @ [JoinLobby ''i'' ''Eve'' 5 CREWMATE_TASKS]) initialState)
     = Some [''Eve'', ''Ann'', ''Bob'', ''Cy'']
   \<and> map_option (map role \<circ> playerValues)
        (stateAfter (bobHitTwice @ [JoinLobby ''i'' ''Eve'' 5 CREWMATE_TASKS]) initialState)
     = Some [None, Some Crewmate, Some Crewmate, Some Crewmate]"
  by code_simp

section \<open>The win evaluator\<close>

text \<open>The first rule of \<open>checkGameEnd\<close> fires exactly when no impostor is alive.\<close>

lemma decideWinner_impostors_eliminated:
  "decideWinner s = Some (''crewmates'', ''All impostors eliminated'')
     \<longleftrightarrow> filter (\<lambda>p. isAlive p \<and> role p = Some Impostor) (playerValues s) = []"
  by (simp add: decideWinner_def Let_def)

text \<open>
  C3 on the code. \<open>checkGameEnd\<close> only tests that no impostor is alive. In a solo round,
  where no impostor was ever assigned, the first evaluation (here after Ann's first
  completed task) ends the round for the crewmates with the reason
  \<open>All impostors eliminated\<close>.
\<close>

theorem solo_round_ends_at_first_evaluation:
  "map_option (map role \<circ> playerValues)
      (stateAfter [JoinLobby ''a'' ''Ann'' 1 CREWMATE_TASKS, StartGame []] initialState)
     = Some [Some Crewmate]
   \<and> emits [JoinLobby ''a'' ''Ann'' 1 CREWMATE_TASKS, StartGame [],
            TaskCompleted ''a'' ''network'' 1] initialState
        (ToRoom (GameEnded ''crewmates'' ''All impostors eliminated''
                   [(''a'', ''Ann'', Some Crewmate, 1, True)]))"
  by code_simp

section \<open>The kill cooldown ledger\<close>

lemma resolveVotes_killCooldowns:
  assumes "resolveVotes s = (s', out)"
  shows "killCooldowns s' = killCooldowns s \<and> \<not> list_ex isPlayerKilled out"
  using assms
  by (auto simp add: resolveVotes_def split: prod.splits option.splits if_splits
      dest!: checkGameEnd_frame)

lemma processVotes_killCooldowns:
  assumes "processVotes s = (s', out)"
  shows "killCooldowns s' = killCooldowns s \<and> \<not> list_ex isPlayerKilled out"
  using assms
  by (auto simp add: processVotes_def clearVotes_def split: prod.splits
      dest!: resolveVotes_killCooldowns)

lemma startEmergencyMeeting_killCooldowns:
  assumes "startEmergencyMeeting s = (s', out)"
  shows "killCooldowns s' = killCooldowns s \<and> \<not> list_ex isPlayerKilled out"
  using assms by (auto simp add: startEmergencyMeeting_def clearVotes_def)

lemma attempt_sabotage_killCooldowns:
  assumes "attempt_sabotage sid tgt su ty now s = (s', out)"
  shows "(killCooldowns s' = killCooldowns s \<and> \<not> list_ex isPlayerKilled out)
       \<or> (\<exists>imp. killCooldowns s' = AList.update imp now (killCooldowns s) \<and> list_ex isPlayerKilled out)"
  using assms
  by (auto simp add: attempt_sabotage_def Let_def split: option.splits if_splits prod.splits
      dest!: checkGameEnd_frame)

lemma step_killCooldowns:
  assumes "step e s = Some (s', out)"
  shows "(killCooldowns s' = killCooldowns s \<and> \<not> list_ex isPlayerKilled out)
       \<or> (\<exists>imp now. killCooldowns s' = AList.update imp now (killCooldowns s) \<and> list_ex isPlayerKilled out)"
proof (cases e)
  case (JoinLobby sid name k shuffled)
  then show ?thesis using assms
    by (auto simp add: join_lobby_def Let_def broadcastPlayerList_def)
next
  case (StartGame draws)
  then have "start_game draws s = Some (s', out)" using assms by simp
  from start_game_players [OF this] show ?thesis
    by (auto simp add: startMessages_def list_ex_iff)
next
  case (TaskProgress sid tk progress screenData)
  then show ?thesis using assms
    by (auto simp add: task_progress_def split: option.splits if_splits)
next
  case (SaveTaskProgress sid tp)
  then show ?thesis using assms
    by (auto simp add: save_task_progress_def Let_def split: option.splits if_splits
        dest!: checkGameEnd_frame)
next
  case (TaskCompleted sid taskId n)
  then show ?thesis using assms
    by (auto simp add: task_completed_def split: option.splits if_splits prod.splits
        dest!: checkGameEnd_frame)
next
  case (AttemptSabotage sid tgt su ty now)
  then have "attempt_sabotage sid tgt su ty now s = (s', out)" using assms by simp
  from attempt_sabotage_killCooldowns [OF this] show ?thesis by blast
next
  case (TriggerSabotage sid ty tgt)
  then show ?thesis using assms
    by (auto simp add: trigger_sabotage_def split: option.splits if_splits)
next
  case (ReportBody sid location)
  then show ?thesis using assms
    by (auto simp add: report_body_def split: option.splits if_splits prod.splits
        dest!: startEmergencyMeeting_killCooldowns)
next
  case (EmergencyMeeting sid)
  then show ?thesis using assms
    by (auto simp add: emergency_meeting_def split: option.splits if_splits
        dest!: startEmergencyMeeting_killCooldowns)
next
  case (SubmitVote sid votedFor)
  then show ?thesis using assms
    by (auto simp add: submit_vote_def Let_def split: option.splits if_splits prod.splits
        dest!: processVotes_killCooldowns)
next
  case (ChatMessageSent sid msg)
  then show ?thesis using assms
    by (auto simp add: chat_message_def split: option.splits)
next
  case (RequestGameState sid)
  then show ?thesis using assms
    by (auto simp add: request_game_state_def split: option.splits if_splits)
next
  case (Disconnect sid)
  then show ?thesis using assms
    by (auto simp add: disconnect_def Let_def broadcastPlayerList_def split: option.splits if_splits)
next
  case GameTimerFires
  then show ?thesis using assms
    by (auto simp add: gameTimerTick_def Let_def split: if_splits prod.splits
        dest!: checkGameEnd_frame)
next
  case MeetingTimerFires
  then show ?thesis using assms
    by (auto simp add: meetingTimeout_def split: if_splits dest!: processVotes_killCooldowns)
next
  case (LobbyResetFires captured)
  then show ?thesis using assms
    by (auto simp add: endGameReset_def)
qed

lemma run_killCooldowns:
  assumes "run es s = Some (s', out)"
  shows "(\<forall>k t. map_of (killCooldowns s) k = Some t \<longrightarrow> (\<exists>t'. map_of (killCooldowns s') k = Some t'))
       \<and> (\<not> list_ex isPlayerKilled out \<longrightarrow> killCooldowns s' = killCooldowns s)"
  using assms
proof (induction es arbitrary: s s' out)
  case Nil
  then show ?case by simp
next
  case (Cons e es)
  from Cons.prems obtain s1 out1 s2 out2 where
    st: "step e s = Some (s1, out1)" and rn: "run es s1 = Some (s2, out2)"
    and eq: "s' = s2" "out = out1 @ out2"
    by (auto split: option.splits prod.splits)
  from step_killCooldowns [OF st] have
    one: "(\<forall>k t. map_of (killCooldowns s) k = Some t \<longrightarrow> (\<exists>t'. map_of (killCooldowns s1) k = Some t'))
       \<and> (\<not> list_ex isPlayerKilled out1 \<longrightarrow> killCooldowns s1 = killCooldowns s)"
    by (auto simp add: AList.update_conv')
  from Cons.IH [OF rn] one show ?case
    unfolding eq by (simp add: list_ex_append)
qed

lemma roundWon_state: "stateAfter roundWon initialState = Some roundWonState"
  by code_simp

lemma nextRound_run:
  "run nextRound roundWonState \<noteq> None
   \<and> fst (the (run nextRound roundWonState)) = nextRoundState
   \<and> \<not> list_ex isPlayerKilled (snd (the (run nextRound roundWonState)))"
  by code_simp

text \<open>
  C10. Whatever events run (handlers, timer callbacks, the end of a round, the lobby reset,
  disconnects, a new \<open>start-game\<close>), a key of \<open>killCooldowns\<close> keeps an entry; as long as
  no \<open>player-killed\<close> was broadcast the ledger is unchanged altogether, and then an
  impostor whose recorded kill is less than 30 seconds old is still refused, with the
  remaining seconds, the hit on a crewmate who already stands at 2.
\<close>

theorem kill_cooldown_entries_persist:
  assumes "run es s = Some (s', out)" and "map_of (killCooldowns s) k = Some t"
  shows "(\<exists>t'. map_of (killCooldowns s') k = Some t')
       \<and> (\<not> list_ex isPlayerKilled out \<longrightarrow> killCooldowns s' = killCooldowns s)
       \<and> (\<not> list_ex isPlayerKilled out
            \<and> map_of (players s') sid = Some impostor \<and> player_id impostor = k
            \<and> role impostor = Some Impostor
            \<and> map_of (players s') targetPlayerId = Some targetPlayer
            \<and> role targetPlayer = Some Crewmate \<and> sabotageCount targetPlayer \<ge> 2
            \<and> now - t < 30000
          \<longrightarrow> attempt_sabotage sid targetPlayerId success sabotageType now s'
                = (s', [ToSocket sid (KillCooldown (ceilDiv (30000 - (now - t)) 1000))]))"
proof -
  from run_killCooldowns [OF assms(1)] assms(2) have
    kept: "\<exists>t'. map_of (killCooldowns s') k = Some t'"
    and same: "\<not> list_ex isPlayerKilled out \<longrightarrow> killCooldowns s' = killCooldowns s"
    by blast+
  have gate: "attempt_sabotage sid targetPlayerId success sabotageType now s'
                = (s', [ToSocket sid (KillCooldown (ceilDiv (30000 - (now - t)) 1000))])"
    if nk: "\<not> list_ex isPlayerKilled out"
      and imp: "map_of (players s') sid = Some impostor" "player_id impostor = k"
               "role impostor = Some Impostor"
      and tgt: "map_of (players s') targetPlayerId = Some targetPlayer"
               "role targetPlayer = Some Crewmate" "sabotageCount targetPlayer \<ge> 2"
      and act: "now - t < 30000"
  proof -
    from same nk assms(2) imp(2) have "map_of (killCooldowns s') (player_id impostor) = Some t"
      by simp
    then have "cooldownRemaining s' (player_id impostor) now = 30000 - (now - t)"
      by (simp add: cooldownRemaining_def)
    then show ?thesis
      using imp tgt act by (simp add: attempt_sabotage_def)
  qed
  from kept same gate show ?thesis
    by blast
qed

theorem kill_cooldown_entries_persist_witness:
  "run nextRound roundWonState \<noteq> None
   \<and> map_of (killCooldowns roundWonState) ''i'' = Some 102000
   \<and> \<not> list_ex isPlayerKilled (snd (the (run nextRound roundWonState)))
   \<and> map_of (players nextRoundState) ''i'' = Some (member ''i'' ''Ivy'' 0 Impostor True 0)
   \<and> map_of (players nextRoundState) ''a'' = Some (member ''a'' ''Ann'' 1 Crewmate True 2)
   \<and> (120000::int) - 102000 < 30000
   \<and> killCooldowns nextRoundState = killCooldowns roundWonState
   \<and> attempt_sabotage ''i'' ''a'' True ''usb'' 120000 nextRoundState
       = (nextRoundState, [ToSocket ''i'' (KillCooldown (ceilDiv (30000 - (120000 - 102000)) 1000))])"
proof -
  have h0: "run nextRound roundWonState \<noteq> None"
    and st: "fst (the (run nextRound roundWonState)) = nextRoundState"
    and nk: "\<not> list_ex isPlayerKilled (snd (the (run nextRound roundWonState)))"
    using nextRound_run by blast+
  have h1: "run nextRound roundWonState
      = Some (nextRoundState, snd (the (run nextRound roundWonState)))"
    using Some_the [OF h0] st by simp
  have h2: "map_of (killCooldowns roundWonState) ''i'' = Some 102000"
    by (simp add: roundWonState_def)
  have i: "map_of (players nextRoundState) ''i'' = Some (member ''i'' ''Ivy'' 0 Impostor True 0)"
    and a: "map_of (players nextRoundState) ''a'' = Some (member ''a'' ''Ann'' 1 Crewmate True 2)"
    by (simp_all add: nextRoundState_def)
  have f: "player_id (member ''i'' ''Ivy'' 0 Impostor True 0) = ''i''"
    "role (member ''i'' ''Ivy'' 0 Impostor True 0) = Some Impostor"
    "role (member ''a'' ''Ann'' 1 Crewmate True 2) = Some Crewmate"
    "sabotageCount (member ''a'' ''Ann'' 1 Crewmate True 2) \<ge> 2"
    by (simp_all add: member_def)
  have t: "(120000::int) - 102000 < 30000"
    by simp
  from kill_cooldown_entries_persist [OF h1 h2, of "''i''" "member ''i'' ''Ivy'' 0 Impostor True 0"
      "''a''" "member ''a'' ''Ann'' 1 Crewmate True 2" 120000 True "''usb''"] nk i a f t
  have "killCooldowns nextRoundState = killCooldowns roundWonState
     \<and> attempt_sabotage ''i'' ''a'' True ''usb'' 120000 nextRoundState
       = (nextRoundState, [ToSocket ''i'' (KillCooldown (ceilDiv (30000 - (120000 - 102000)) 1000))])"
    by blast
  with h0 h2 nk i a t show ?thesis
    by blast
qed

section \<open>Roles and tasks at the start of a round\<close>

lemma tasksOk_cong: "tasks p = tasks q \<Longrightarrow> tasksOk p = tasksOk q"
  by (simp add: tasksOk_def)

lemma distinct_CREWMATE_TASKS: "distinct CREWMATE_TASKS \<and> length CREWMATE_TASKS = 5"
  by (simp add: CREWMATE_TASKS_def)

lemma getRandomTasks_ok:
  assumes "mset shuffled = mset CREWMATE_TASKS" and "tasks p = getRandomTasks shuffled 3"
  shows "tasksOk p"
proof -
  have "distinct shuffled"
    using assms(1) distinct_CREWMATE_TASKS by (metis mset_eq_imp_distinct_iff)
  moreover have "length shuffled = 5"
    using assms(1) distinct_CREWMATE_TASKS by (metis size_mset)
  moreover have "set shuffled = set CREWMATE_TASKS"
    using assms(1) by (rule mset_eq_setD)
  ultimately show ?thesis
    using set_take_subset [of 3 shuffled]
    by (simp add: tasksOk_def assms(2) getRandomTasks_def)
qed

lemma set_map_entry:
  "x \<in> set (AList.map_entry k f al) \<Longrightarrow> x \<in> set al \<or> (\<exists>p. (k, p) \<in> set al \<and> x = (k, f p))"
  by (induction al) (auto split: if_splits)

lemma set_update: "x \<in> set (AList.update k v al) \<Longrightarrow> x \<in> set al \<or> x = (k, v)"
  by (induction al) (auto split: if_splits)

lemma set_delete: "x \<in> set (AList.delete k al) \<Longrightarrow> x \<in> set al"
  by (induction al) (auto split: if_splits)

lemma in_enumerate_snd: "(i, x) \<in> set (enumerate n xs) \<Longrightarrow> x \<in> set xs"
  by (induction xs arbitrary: n) auto

lemma set_join:
  "x \<in> set (AList.map_entry k f (AList.update k v al)) \<Longrightarrow> x \<in> set al \<or> x = (k, f v)"
  by (induction al) (auto split: if_splits)

lemma tasksInv_map_entry:
  assumes "tasksInv s" and "\<And>p. tasks (f p) = tasks p"
  shows "tasksInv (s\<lparr>players := AList.map_entry k f (players s)\<rparr>)"
  using assms unfolding tasksInv_def
  by (auto dest!: set_map_entry simp add: tasksOk_cong [OF assms(2)])

lemma tasksInv_map:
  assumes "tasksInv s" and "\<And>k p. \<exists>k' p'. g (k, p) = (k', p') \<and> tasks p' = tasks p"
  shows "tasksInv (s\<lparr>players := map g (players s)\<rparr>)"
  unfolding tasksInv_def
proof
  fix x assume "x \<in> set (players (s\<lparr>players := map g (players s)\<rparr>))"
  then obtain k p where kp: "(k, p) \<in> set (players s)" and x: "x = g (k, p)"
    by auto
  from assms(2) [of k p] obtain k' p' where g: "g (k, p) = (k', p')" and t: "tasks p' = tasks p"
    by blast
  from kp assms(1) have "tasksOk p"
    by (auto simp add: tasksInv_def)
  then show "tasksOk (snd x)"
    using x g tasksOk_cong [OF t] by simp
qed

lemma tasksInv_players_eq: "players s' = players s \<Longrightarrow> tasksInv s' = tasksInv s"
  by (simp add: tasksInv_def)

lemma tasksInv_checkGameEnd:
  assumes "checkGameEnd s = (s', out)" and "tasksInv s"
  shows "tasksInv s'"
  using checkGameEnd_frame [OF assms(1)] assms(2) by (simp add: tasksInv_def)

lemma tasksInv_clearVotes: "tasksInv s \<Longrightarrow> tasksInv (clearVotes s)"
  unfolding clearVotes_def by (rule tasksInv_map) auto

lemma tasksInv_resolveVotes:
  assumes "resolveVotes s = (s', out)" and "tasksInv s"
  shows "tasksInv s'"
proof -
  have a: "tasksInv (s\<lparr>players := AList.map_entry pid (\<lambda>p. p\<lparr>isAlive := False\<rparr>) (players s)\<rparr>)" for pid
    using assms(2) by (rule tasksInv_map_entry) simp
  show ?thesis
    using assms a
    by (auto simp add: resolveVotes_def split: prod.splits option.splits if_splits
        dest: tasksInv_checkGameEnd)
qed

lemma tasksInv_processVotes:
  assumes "processVotes s = (s', out)" and "tasksInv s"
  shows "tasksInv s'"
  using assms
  by (auto simp add: processVotes_def split: prod.splits
      dest!: tasksInv_resolveVotes intro: tasksInv_clearVotes)

lemma tasksInv_startEmergencyMeeting:
  assumes "startEmergencyMeeting s = (s', out)" and "tasksInv s"
  shows "tasksInv s'"
  using assms by (auto simp add: startEmergencyMeeting_def intro: tasksInv_clearVotes)

lemma tasksInv_start_game:
  assumes "start_game draws s = Some (s', out)" and "tasksInv s"
  shows "tasksInv s'"
proof -
  from start_game_players [OF assms(1)] obtain ix where
    ps: "players s' = map (\<lambda>(index, (k, p)). (k, assignRound ix index p)) (enumerate 0 (players s))"
    by blast
  show ?thesis
    unfolding tasksInv_def
  proof
    fix x assume "x \<in> set (players s')"
    then obtain i k p where m: "(i, (k, p)) \<in> set (enumerate 0 (players s))"
      and x: "x = (k, assignRound ix i p)"
      unfolding ps by auto
    from m have "(k, p) \<in> set (players s)"
      by (rule in_enumerate_snd)
    then have "tasksOk p"
      using assms(2) by (auto simp add: tasksInv_def)
    moreover have "tasks (assignRound ix i p) = tasks p"
      by (simp add: assignRound_def)
    ultimately show "tasksOk (snd x)"
      using x by (simp add: tasksOk_def)
  qed
qed

lemma tasksInv_delete:
  assumes "tasksInv s"
  shows "tasksInv (s\<lparr>players := AList.delete k (players s)\<rparr>)"
  unfolding tasksInv_def
proof
  fix x assume "x \<in> set (players (s\<lparr>players := AList.delete k (players s)\<rparr>))"
  then have "x \<in> set (AList.delete k (players s))"
    by simp
  then have "x \<in> set (players s)"
    by (rule set_delete)
  then show "tasksOk (snd x)"
    using assms by (simp add: tasksInv_def)
qed

lemma tasksInv_attempt_sabotage:
  assumes "attempt_sabotage sid tgt su ty now s = (s', out)" and "tasksInv s"
  shows "tasksInv s'"
proof -
  have a: "tasksInv (s\<lparr>players := AList.map_entry tgt (\<lambda>p. p\<lparr>sabotageCount := n\<rparr>) (players s)\<rparr>)" for n
    using assms(2) by (rule tasksInv_map_entry) simp
  have b: "tasksInv (s\<lparr>players := AList.map_entry tgt (\<lambda>p. p\<lparr>isAlive := False\<rparr>)
        (AList.map_entry tgt (\<lambda>p. p\<lparr>sabotageCount := n\<rparr>) (players s)), killCooldowns := kc\<rparr>)" for n kc
    using tasksInv_map_entry [OF a [of n], of "\<lambda>p. p\<lparr>isAlive := False\<rparr>" tgt]
    by (simp add: tasksInv_def)
  show ?thesis using assms a b
    by (auto simp add: attempt_sabotage_def Let_def split: option.splits if_splits prod.splits
        dest: tasksInv_checkGameEnd)
qed

lemma tasksInv_submit_vote:
  assumes "submit_vote sid votedFor s = (s', out)" and "tasksInv s"
  shows "tasksInv s'"
proof -
  have "tasksInv (s\<lparr>players := AList.map_entry sid (\<lambda>q. q\<lparr>vote := votedFor\<rparr>) (players s)\<rparr>)"
    using assms(2) by (rule tasksInv_map_entry) simp
  then show ?thesis using assms
    by (auto simp add: submit_vote_def Let_def split: option.splits if_splits prod.splits
        dest: tasksInv_processVotes)
qed

lemma tasksInv_save_task_progress:
  assumes "save_task_progress sid tp s = (s', out)" and "tasksInv s"
  shows "tasksInv s'"
proof -
  have "tasksInv (s\<lparr>players := AList.map_entry sid (\<lambda>q. q\<lparr>taskProgress := tp\<rparr>) (players s)\<rparr>)"
    using assms(2) by (rule tasksInv_map_entry) simp
  then show ?thesis
    using assms
    by (auto simp add: save_task_progress_def Let_def split: option.splits if_splits
        dest: tasksInv_checkGameEnd)
qed

lemma tasksInv_task_completed:
  assumes "task_completed sid taskId n s = (s', out)" and "tasksInv s"
  shows "tasksInv s'"
proof -
  have "tasksInv (s\<lparr>players := AList.map_entry sid
                        (\<lambda>q. q\<lparr>taskProgress := (taskProgress q)\<lparr>tasksCompleted := n\<rparr>\<rparr>) (players s)\<rparr>)"
    using assms(2) by (rule tasksInv_map_entry) simp
  then show ?thesis
    using assms
    by (auto simp add: task_completed_def split: option.splits if_splits prod.splits
        dest: tasksInv_checkGameEnd)
qed

lemma tasksInv_gameTimerTick:
  assumes "gameTimerTick s = (s', out)" and "tasksInv s"
  shows "tasksInv s'"
proof -
  have "tasksInv (s\<lparr>timeRemaining := t\<rparr>)" for t
    using assms(2) by (simp add: tasksInv_def)
  then show ?thesis
    using assms
    by (auto simp add: gameTimerTick_def Let_def split: if_splits prod.splits
        dest: tasksInv_checkGameEnd)
qed

lemma tasksInv_endGameReset:
  assumes "endGameReset captured s = (s', out)" and "tasksInv s"
  shows "tasksInv s'"
proof -
  have "tasksInv (s\<lparr>players := map (\<lambda>(k, p). if k \<in> set captured then (k, resetPlayer p) else (k, p))
                     (players s)\<rparr>)"
    using assms(2) by (rule tasksInv_map) (simp add: resetPlayer_def)
  then show ?thesis
    using assms(1) by (auto simp add: endGameReset_def)
qed

lemma tasksInv_disconnect:
  assumes "disconnect sid s = (s', out)" and "tasksInv s"
  shows "tasksInv s'"
proof -
  have "tasksInv (s\<lparr>players := AList.delete sid (players s)\<rparr>)"
    using assms(2) by (rule tasksInv_delete)
  moreover have "tasksInv (s\<lparr>players := AList.delete sid (players s), gameTimer := False\<rparr>)"
    using tasksInv_delete [OF assms(2), of sid] by (simp add: tasksInv_def)
  ultimately show ?thesis
    using assms
    by (auto simp add: disconnect_def Let_def split: option.splits if_splits)
qed

lemma tasksInv_join_lobby:
  assumes "join_lobby sid name k shuffled s = (s', out)" and "tasksInv s"
    and "mset shuffled = mset CREWMATE_TASKS"
  shows "tasksInv s'"
proof -
  have "tasksOk ((newPlayer sid name k)\<lparr>tasks := getRandomTasks shuffled 3\<rparr>)"
    using assms(3) by (rule getRandomTasks_ok) simp
  then show ?thesis
    using assms(1,2)
    by (auto simp add: join_lobby_def Let_def tasksInv_def dest!: set_join)
qed

lemma tasksInv_step:
  assumes "step e s = Some (s', out)" and "envOk e s" and "tasksInv s"
  shows "tasksInv s'"
proof (cases e)
  case (JoinLobby sid name k shuffled)
  then show ?thesis
    using assms by (auto dest: tasksInv_join_lobby)
next
  case (StartGame draws)
  then show ?thesis
    using assms by (auto dest: tasksInv_start_game)
next
  case (TaskProgress sid tk progress screenData)
  then show ?thesis using assms
    by (auto simp add: task_progress_def split: option.splits if_splits)
next
  case (SaveTaskProgress sid tp)
  then show ?thesis
    using assms by (auto dest: tasksInv_save_task_progress)
next
  case (TaskCompleted sid taskId n)
  then show ?thesis
    using assms by (auto dest: tasksInv_task_completed)
next
  case (AttemptSabotage sid tgt su ty now)
  then show ?thesis
    using assms by (auto dest: tasksInv_attempt_sabotage)
next
  case (TriggerSabotage sid ty tgt)
  then show ?thesis using assms
    by (auto simp add: trigger_sabotage_def split: option.splits if_splits)
next
  case (ReportBody sid location)
  then show ?thesis using assms
    by (auto simp add: report_body_def split: option.splits if_splits prod.splits
        dest: tasksInv_startEmergencyMeeting)
next
  case (EmergencyMeeting sid)
  then show ?thesis using assms
    by (auto simp add: emergency_meeting_def split: option.splits if_splits
        dest: tasksInv_startEmergencyMeeting)
next
  case (SubmitVote sid votedFor)
  then show ?thesis
    using assms by (auto dest: tasksInv_submit_vote)
next
  case (ChatMessageSent sid msg)
  then show ?thesis using assms
    by (auto simp add: chat_message_def split: option.splits)
next
  case (RequestGameState sid)
  then show ?thesis using assms
    by (auto simp add: request_game_state_def split: option.splits if_splits)
next
  case (Disconnect sid)
  then show ?thesis
    using assms by (auto dest: tasksInv_disconnect)
next
  case GameTimerFires
  then show ?thesis
    using assms by (auto dest: tasksInv_gameTimerTick)
next
  case MeetingTimerFires
  then show ?thesis using assms
    by (auto simp add: meetingTimeout_def split: if_splits dest: tasksInv_processVotes)
next
  case (LobbyResetFires captured)
  then show ?thesis
    using assms by (auto dest: tasksInv_endGameReset)
qed

lemma reachable_tasksInv: "reachable s \<Longrightarrow> tasksInv s"
proof (induction rule: reachable.induct)
  case reachable_init
  show ?case by (simp add: tasksInv_def initialState_def)
next
  case (reachable_step s e s' out)
  then show ?case by (blast intro: tasksInv_step)
qed

lemma reachable_run:
  assumes "reachable s" and "envOkRun es s" and "run es s = Some (s', out)"
  shows "reachable s'"
  using assms
proof (induction es arbitrary: s s' out)
  case Nil
  then show ?case by simp
next
  case (Cons e es)
  from Cons.prems(3) obtain s1 out1 out2 where
    st: "step e s = Some (s1, out1)" and rn: "run es s1 = Some (s', out2)"
    by (auto split: option.splits prod.splits)
  from Cons.prems(2) st have ok: "envOk e s" "envOkRun es s1"
    by simp_all
  from Cons.prems(1) ok(1) st have "reachable s1"
    by (rule reachable_step)
  from Cons.IH [OF this ok(2) rn] show ?case .
qed

lemma length_filter_enumerate:
  "length (filter (\<lambda>(i, x). i = d) (enumerate n xs)) = (if n \<le> d \<and> d < n + length xs then 1 else 0)"
proof (induction xs arbitrary: n)
  case Nil
  show ?case by simp
next
  case (Cons x xs)
  show ?case
    using Cons.IH [of "Suc n"] by auto
qed

lemma length_filter_split:
  "length (filter (\<lambda>(i, x). i \<in> A) xs) + length (filter (\<lambda>(i, x). i \<notin> A) xs) = length xs"
  by (induction xs) auto

lemma pickImpostors_done:
  "length impostorIndices \<ge> impostorCount
     \<Longrightarrow> pickImpostors impostorCount draws impostorIndices = Some impostorIndices"
  by (cases draws) auto

lemma pickImpostors_one: "pickImpostors 1 (d # ds) [] = Some [d]"
  by (simp add: pickImpostors_done)

lemma impostors_assigned:
  assumes "players s' = map (\<lambda>(index, (k, p)). (k, assignRound ix index p)) (enumerate 0 ps)"
  shows "length (impostors s') = length (filter (\<lambda>(i, x). i \<in> set ix) (enumerate 0 ps))"
    and "length (crewmates s') = length (filter (\<lambda>(i, x). i \<notin> set ix) (enumerate 0 ps))"
proof -
  have i: "(\<lambda>x. role (snd (case x of (index, k, p) \<Rightarrow> (k, assignRound ix index p))) = Some Impostor)
         = (\<lambda>(i, x). i \<in> set ix)"
    by (auto simp add: assignRound_def fun_eq_iff)
  have c: "(\<lambda>x. role (snd (case x of (index, k, p) \<Rightarrow> (k, assignRound ix index p))) = Some Crewmate)
         = (\<lambda>(i, x). i \<notin> set ix)"
    by (auto simp add: assignRound_def fun_eq_iff)
  show "length (impostors s') = length (filter (\<lambda>(i, x). i \<in> set ix) (enumerate 0 ps))"
    unfolding impostors_def playerValues_def assms
    by (simp add: filter_map o_def i)
  show "length (crewmates s') = length (filter (\<lambda>(i, x). i \<notin> set ix) (enumerate 0 ps))"
    unfolding crewmates_def playerValues_def assms
    by (simp add: filter_map o_def c)
qed

lemma start_game_total:
  assumes "length (players s) \<ge> 2 \<longrightarrow> draws \<noteq> []"
  shows "\<exists>s' out. start_game draws s = Some (s', out)"
proof (cases draws)
  case Nil
  then show ?thesis
    using assms by (simp add: start_game_def Let_def)
next
  case (Cons d ds)
  then show ?thesis
    using pickImpostors_one [of d ds] by (simp add: start_game_def Let_def)
qed

text \<open>
  C7. In a state the server can reach, with the random indices below the number of players
  and at least one of them available when an impostor is to be drawn, \<open>start-game\<close> with
  \<open>N \<ge> 1\<close> players returns: it keeps the \<open>N\<close> players, makes exactly one of them impostor
  when \<open>N \<ge> 2\<close> and none when \<open>N = 1\<close>, all others crewmates, and every player holds 3
  distinct tasks of the catalog.
\<close>

theorem start_game_roles_and_tasks:
  assumes "reachable s" and "envOk (StartGame draws) s"
    and "length (players s) \<ge> 2 \<longrightarrow> draws \<noteq> []" and "length (players s) \<ge> 1"
  shows "\<exists>s' out. start_game draws s = Some (s', out)
           \<and> length (players s') = length (players s)
           \<and> (length (players s) \<ge> 2 \<longrightarrow> length (impostors s') = 1)
           \<and> (length (players s) = 1 \<longrightarrow> length (impostors s') = 0)
           \<and> length (impostors s') + length (crewmates s') = length (players s')
           \<and> (\<forall>p \<in> set (playerValues s').
                 length (tasks p) = 3 \<and> distinct (tasks p) \<and> set (tasks p) \<subseteq> set CREWMATE_TASKS)"
proof -
  from start_game_total [OF assms(3)] obtain s' out where sg: "start_game draws s = Some (s', out)"
    by blast
  from start_game_players [OF sg] obtain ix where
    ps: "players s' = map (\<lambda>(index, (k, p)). (k, assignRound ix index p)) (enumerate 0 (players s))"
    and pick: "length (players s) \<ge> 2 \<longrightarrow> pickImpostors 1 draws [] = Some ix"
    and solo: "length (players s) < 2 \<longrightarrow> ix = []"
    by blast
  have len: "length (players s') = length (players s)"
    unfolding ps by simp
  have one: "length (impostors s') = 1" if n: "length (players s) \<ge> 2"
  proof -
    from n assms(3) obtain d ds where d: "draws = d # ds"
      by (cases draws) auto
    with pick n have ix: "ix = [d]"
      using pickImpostors_one [of d ds] by simp
    from assms(2) d have "d < length (players s)"
      by simp
    then show ?thesis
      unfolding impostors_assigned(1) [OF ps] ix
      by (simp add: length_filter_enumerate)
  qed
  have none: "length (impostors s') = 0" if "length (players s) = 1"
    using that solo unfolding impostors_assigned(1) [OF ps] by simp
  have "length (filter (\<lambda>(i, x). i \<in> set ix) (enumerate 0 (players s)))
        + length (filter (\<lambda>(i, x). i \<notin> set ix) (enumerate 0 (players s)))
        = length (enumerate 0 (players s))"
    by (rule length_filter_split)
  then have all: "length (impostors s') + length (crewmates s') = length (players s')"
    unfolding impostors_assigned [OF ps] len by simp
  have "tasksInv s'"
    using sg reachable_tasksInv [OF assms(1)] by (rule tasksInv_start_game)
  then have tk: "\<forall>p \<in> set (playerValues s').
                 length (tasks p) = 3 \<and> distinct (tasks p) \<and> set (tasks p) \<subseteq> set CREWMATE_TASKS"
    by (auto simp add: tasksInv_def playerValues_def tasksOk_def)
  from sg len one none all tk show ?thesis
    by blast
qed

lemma joined4_run:
  "run joined4 initialState \<noteq> None \<and> fst (the (run joined4 initialState)) = lobby4"
  by code_simp

lemma joined4_envOk: "envOkRun joined4 initialState"
  by (simp add: joined4_def)

theorem start_game_roles_and_tasks_witness:
  "reachable lobby4 \<and> envOk (StartGame [2]) lobby4 \<and> length (players lobby4) \<ge> 1
   \<and> start_game [2] lobby4 \<noteq> None
   \<and> length (impostors (fst (the (start_game [2] lobby4)))) = 1
   \<and> length (crewmates (fst (the (start_game [2] lobby4)))) = 3
   \<and> list_all tasksOk (playerValues (fst (the (start_game [2] lobby4))))"
proof -
  have r0: "run joined4 initialState = Some (lobby4, snd (the (run joined4 initialState)))"
    using joined4_run Some_the [of "run joined4 initialState"] by simp
  have h1: "reachable lobby4"
    using reachable_init joined4_envOk r0 by (rule reachable_run)
  have h2: "envOk (StartGame [2]) lobby4"
    by (simp add: lobby4_def)
  have h3: "length (players lobby4) \<ge> 2 \<longrightarrow> [2::nat] \<noteq> []"
    by simp
  have h4: "length (players lobby4) \<ge> 1"
    by (simp add: lobby4_def)
  have n: "length (players lobby4) = 4"
    by (simp add: lobby4_def)
  from start_game_roles_and_tasks [OF h1 h2 h3 h4] n
  have "start_game [2] lobby4 \<noteq> None
   \<and> length (impostors (fst (the (start_game [2] lobby4)))) = 1
   \<and> length (crewmates (fst (the (start_game [2] lobby4)))) = 3
   \<and> list_all tasksOk (playerValues (fst (the (start_game [2] lobby4))))"
    by (auto simp add: list_all_iff tasksOk_def)
  with h1 h2 h4 show ?thesis
    by blast
qed

section \<open>The tally and the scan of \<open>processVotes\<close>\<close>

lemma ballots_cnt: "ballots s t = cnt (playerValues s) t"
  by (simp add: ballots_def cnt_def)

lemma entries_mset: "mset (entries obj) = mset obj"
  by (simp add: entries_def)

lemma entries_set: "set (entries obj) = set obj"
  using entries_mset [of obj] by (rule mset_eq_setD)

lemma entries_distinct:
  assumes "distinct (map fst obj)"
  shows "distinct (map fst (entries obj))"
proof -
  have "mset (map fst (entries obj)) = mset (map fst obj)"
    by (simp add: entries_mset)
  then show ?thesis
    using assms by (metis mset_eq_imp_distinct_iff)
qed

lemma entries_map_of:
  assumes "distinct (map fst obj)"
  shows "map_of (entries obj) = map_of obj"
  using entries_distinct [OF assms] assms entries_set [of obj]
  by (simp add: map_of_inject_set)

lemma tallyVotes_snoc: "tallyVotes (ps @ [p]) = tallyStep (tallyVotes ps) p"
  by (simp add: tallyVotes_def)

lemma tallyVotes_distinct: "distinct (map fst (fst (tallyVotes ps)))"
proof (induction ps rule: rev_induct)
  case Nil
  show ?case by (simp add: tallyVotes_def)
next
  case (snoc p ps)
  then show ?case
    by (simp add: tallyVotes_snoc tallyStep_def obj_set_def AList.distinct_update
        split: option.splits)
qed

lemma proto_in_keys: "''__proto__'' \<in> set objectPrototypeKeys"
  by (simp add: objectPrototypeKeys_def)

lemma tallyVotes_map_of:
  "map_of (fst (tallyVotes ps)) k =
     (if k = ''__proto__'' \<or> cnt ps k = 0 then None
      else if k \<in> set objectPrototypeKeys then Some NotNumeric
      else Some (Num (cnt ps k)))"
proof (induction ps rule: rev_induct)
  case Nil
  show ?case by (simp add: tallyVotes_def cnt_def)
next
  case (snoc p ps)
  show ?case
  proof (cases "vote p")
    case None
    then have "tallyVotes (ps @ [p]) = tallyVotes ps" "cnt (ps @ [p]) k = cnt ps k"
      by (simp_all add: tallyVotes_snoc tallyStep_def cnt_def)
    then show ?thesis
      using snoc.IH by simp
  next
    case (Some v)
    show ?thesis
    proof (cases "k = v")
      case False
      then have c: "cnt (ps @ [p]) k = cnt ps k"
        using Some by (auto simp add: cnt_def)
      have "map_of (fst (tallyVotes (ps @ [p]))) k = map_of (fst (tallyVotes ps)) k"
        using False Some
        by (simp add: tallyVotes_snoc tallyStep_def obj_set_def AList.update_conv')
      then show ?thesis
        using snoc.IH c by simp
    next
      case True
      have c: "cnt (ps @ [p]) v = cnt ps v + 1"
        using Some by (simp add: cnt_def)
      have nn: "0 \<le> cnt ps v"
        by (simp add: cnt_def)
      show ?thesis
      proof (cases "v = ''__proto__''")
        case True
        then have "fst (tallyVotes (ps @ [p])) = fst (tallyVotes ps)"
          using Some by (simp add: tallyVotes_snoc tallyStep_def obj_set_def)
        then show ?thesis
          using \<open>k = v\<close> True snoc.IH by simp
      next
        case False
        have ih: "map_of (fst (tallyVotes ps)) v =
           (if cnt ps v = 0 then None
            else if v \<in> set objectPrototypeKeys then Some NotNumeric
            else Some (Num (cnt ps v)))"
          using snoc.IH False \<open>k = v\<close> by simp
        have "map_of (fst (tallyVotes (ps @ [p]))) v = Some (bump (fst (tallyVotes ps)) v)"
          using False Some
          by (simp add: tallyVotes_snoc tallyStep_def obj_set_def AList.update_conv')
        then show ?thesis
          using \<open>k = v\<close> False c nn ih by (auto simp add: bump_def)
      qed
    qed
  qed
qed

lemma tallyVotes_Num:
  assumes "(k, Num c) \<in> set (fst (tallyVotes ps))"
  shows "c = cnt ps k \<and> 0 < c \<and> k \<notin> set objectPrototypeKeys"
proof -
  from assms have "map_of (fst (tallyVotes ps)) k = Some (Num c)"
    using tallyVotes_distinct [of ps] by simp
  moreover have "0 \<le> cnt ps k"
    by (simp add: cnt_def)
  ultimately show ?thesis
    unfolding tallyVotes_map_of by (auto split: if_splits)
qed

lemma tallyVotes_plain:
  assumes "k \<notin> set objectPrototypeKeys" and "0 < cnt ps k"
  shows "(k, Num (cnt ps k)) \<in> set (fst (tallyVotes ps))"
proof -
  have "k \<noteq> ''__proto__''"
    using assms(1) proto_in_keys by auto
  then have "map_of (fst (tallyVotes ps)) k = Some (Num (cnt ps k))"
    using assms by (simp add: tallyVotes_map_of)
  then show ?thesis
    by (rule map_of_SomeD)
qed

text \<open>
  The voter map: under distinct player ids it holds, for every player with a vote, that
  vote under the player's id, and it holds nothing else.
\<close>

lemma tallyVotes_voters_distinct: "distinct (map fst (snd (tallyVotes ps)))"
proof (induction ps rule: rev_induct)
  case Nil
  show ?case by (simp add: tallyVotes_def)
next
  case (snoc p ps)
  then show ?case
    by (simp add: tallyVotes_snoc tallyStep_def obj_set_def AList.distinct_update
        split: option.splits)
qed

lemma tallyVotes_voters_only:
  assumes "map_of (snd (tallyVotes ps)) k = Some v"
  shows "\<exists>p \<in> set ps. player_id p = k \<and> vote p = Some v"
  using assms
proof (induction ps rule: rev_induct)
  case Nil
  then show ?case by (simp add: tallyVotes_def)
next
  case (snoc q ps)
  then show ?case
    by (auto simp add: tallyVotes_snoc tallyStep_def obj_set_def AList.update_conv'
        split: option.splits if_splits)
qed

lemma tallyVotes_voters:
  assumes "distinct (map player_id ps)" and "p \<in> set ps" and "vote p = Some v"
    and "player_id p \<noteq> ''__proto__''"
  shows "map_of (snd (tallyVotes ps)) (player_id p) = Some v"
  using assms
proof (induction ps rule: rev_induct)
  case Nil
  then show ?case by simp
next
  case (snoc q ps)
  show ?case
  proof (cases "p = q")
    case True
    then show ?thesis
      using snoc.prems(3,4)
      by (simp add: tallyVotes_snoc tallyStep_def obj_set_def AList.update_conv')
  next
    case False
    with snoc.prems(2) have in_ps: "p \<in> set ps"
      by simp
    with snoc.prems(1) have ne: "player_id q \<noteq> player_id p"
      by auto
    from snoc.prems(1) have "distinct (map player_id ps)"
      by simp
    from snoc.IH [OF this in_ps snoc.prems(3,4)] ne show ?thesis
      by (simp add: tallyVotes_snoc tallyStep_def obj_set_def AList.update_conv'
          split: option.splits)
  qed
qed

lemma scan_below:
  assumes "\<forall>x \<in> set es. \<forall>c. snd x = Num c \<longrightarrow> c < m"
  shows "foldl scanStep (m, e, tie) es = (m, e, tie)"
  using assms
proof (induction es)
  case Nil
  show ?case by simp
next
  case (Cons x es)
  obtain k v where x: "x = (k, v)"
    by (cases x)
  from Cons.prems x have "scanStep (m, e, tie) x = (m, e, tie)"
    by (cases v) auto
  then show ?case
    using Cons by simp
qed

lemma scan_unique:
  assumes "distinct (map fst es)" and "(t, Num c) \<in> set es" and "m < c"
    and "\<forall>x \<in> set es. \<forall>c'. snd x = Num c' \<longrightarrow> fst x \<noteq> t \<longrightarrow> c' < c"
  shows "foldl scanStep (m, e, tie) es = (c, Some t, False)"
  using assms
proof (induction es arbitrary: m e tie)
  case Nil
  then show ?case by simp
next
  case (Cons x es)
  obtain k v where x: "x = (k, v)"
    by (cases x)
  show ?case
  proof (cases "k = t")
    case True
    with Cons.prems(1,2) x have v: "v = Num c"
      by (auto simp add: rev_image_eqI)
    from Cons.prems(1) True x have "t \<notin> fst ` set es"
      by simp
    with Cons.prems(4) have "\<forall>y \<in> set es. \<forall>c'. snd y = Num c' \<longrightarrow> c' < c"
      by (metis image_eqI list.set_intros(2))
    then have "foldl scanStep (c, Some t, False) es = (c, Some t, False)"
      by (rule scan_below)
    then show ?thesis
      using x True v Cons.prems(3) by simp
  next
    case False
    with Cons.prems(2) x have in_es: "(t, Num c) \<in> set es"
      by auto
    obtain m' e' tie' where st: "scanStep (m, e, tie) x = (m', e', tie')"
      by (cases "scanStep (m, e, tie) x")
    have "m' < c"
    proof (cases v)
      case (Num c')
      with Cons.prems(4) x False have "c' < c"
        by simp
      with st x Num Cons.prems(3) show ?thesis
        by (auto split: if_splits)
    next
      case NotNumeric
      with st x Cons.prems(3) show ?thesis
        by simp
    qed
    moreover from Cons.prems(1) have "distinct (map fst es)"
      by simp
    moreover from Cons.prems(4) have
      "\<forall>y \<in> set es. \<forall>c'. snd y = Num c' \<longrightarrow> fst y \<noteq> t \<longrightarrow> c' < c"
      by simp
    ultimately have "foldl scanStep (m', e', tie') es = (c, Some t, False)"
      using in_es Cons.IH by blast
    then show ?thesis
      using st by simp
  qed
qed

lemma scan_tied:
  assumes "0 < c" and "\<forall>x \<in> set es. \<forall>c'. snd x = Num c' \<longrightarrow> c' \<le> c"
  shows "foldl scanStep (c, e, True) es = (c, e, True)"
  using assms
proof (induction es)
  case Nil
  show ?case by simp
next
  case (Cons x es)
  obtain k v where x: "x = (k, v)"
    by (cases x)
  from Cons.prems x have "scanStep (c, e, True) x = (c, e, True)"
    by (cases v) auto
  then show ?case
    using Cons by simp
qed

lemma scan_second:
  assumes "0 < c" and "\<forall>x \<in> set es. \<forall>c'. snd x = Num c' \<longrightarrow> c' \<le> c"
    and "(k, Num c) \<in> set es"
  shows "foldl scanStep (c, e, tie) es = (c, e, True)"
  using assms
proof (induction es arbitrary: tie)
  case Nil
  then show ?case by simp
next
  case (Cons x es)
  from Cons.prems(2) have rest: "\<forall>y \<in> set es. \<forall>c'. snd y = Num c' \<longrightarrow> c' \<le> c"
    by simp
  show ?case
  proof (cases "snd x = Num c")
    case True
    then have "scanStep (c, e, tie) x = (c, e, True)"
      using Cons.prems(1) by (cases x) auto
    then show ?thesis
      using scan_tied [OF Cons.prems(1) rest] by simp
  next
    case False
    obtain k' v where x: "x = (k', v)"
      by (cases x)
    have "scanStep (c, e, tie) x = (c, e, tie)"
    proof (cases v)
      case (Num c')
      with Cons.prems(2) x False have "c' < c"
        by auto
      with x Num show ?thesis
        by simp
    next
      case NotNumeric
      with x show ?thesis
        by simp
    qed
    moreover from False Cons.prems(3) have "(k, Num c) \<in> set es"
      by auto
    ultimately show ?thesis
      using Cons.IH [OF Cons.prems(1) rest] by simp
  qed
qed

lemma scan_tie:
  assumes "0 < c" and "m < c" and "\<forall>x \<in> set es. \<forall>c'. snd x = Num c' \<longrightarrow> c' \<le> c"
    and "(t1, Num c) \<in> set es" and "(t2, Num c) \<in> set es" and "t1 \<noteq> t2"
  shows "\<exists>e'. foldl scanStep (m, e, tie) es = (c, e', True)"
  using assms
proof (induction es arbitrary: m e tie)
  case Nil
  then show ?case by simp
next
  case (Cons x es)
  from Cons.prems(3) have rest: "\<forall>y \<in> set es. \<forall>c'. snd y = Num c' \<longrightarrow> c' \<le> c"
    by simp
  obtain k v where x: "x = (k, v)"
    by (cases x)
  show ?case
  proof (cases "v = Num c")
    case True
    then have st: "scanStep (m, e, tie) x = (c, Some k, False)"
      using x Cons.prems(2) by simp
    from Cons.prems(4,5,6) x obtain t where "(t, Num c) \<in> set es"
      by auto
    from scan_second [OF Cons.prems(1) rest this] st show ?thesis
      by simp
  next
    case False
    obtain m' e' tie' where st: "scanStep (m, e, tie) x = (m', e', tie')"
      by (cases "scanStep (m, e, tie) x")
    have "m' < c"
    proof (cases v)
      case (Num c')
      with Cons.prems(3) x False have "c' < c"
        by auto
      with st x Num Cons.prems(2) show ?thesis
        by (auto split: if_splits)
    next
      case NotNumeric
      with st x Cons.prems(2) show ?thesis
        by simp
    qed
    moreover from False x Cons.prems(4,5) have "(t1, Num c) \<in> set es" "(t2, Num c) \<in> set es"
      by auto
    ultimately have "\<exists>e''. foldl scanStep (m', e', tie') es = (c, e'', True)"
      using Cons.IH [OF Cons.prems(1) _ rest _ _ Cons.prems(6)] by blast
    then show ?thesis
      using st by simp
  qed
qed

lemma scanVotes_unique:
  assumes "t \<notin> set objectPrototypeKeys" and "0 < cnt ps t"
    and "\<forall>u. u \<noteq> t \<longrightarrow> cnt ps u < cnt ps t"
  shows "scanVotes (fst (tallyVotes ps)) = (cnt ps t, Some t, False)"
proof -
  let ?es = "entries (fst (tallyVotes ps))"
  have d: "distinct (map fst ?es)"
    using tallyVotes_distinct by (rule entries_distinct)
  have t: "(t, Num (cnt ps t)) \<in> set ?es"
    unfolding entries_set using assms(1,2) by (rule tallyVotes_plain)
  have o: "\<forall>x \<in> set ?es. \<forall>c'. snd x = Num c' \<longrightarrow> fst x \<noteq> t \<longrightarrow> c' < cnt ps t"
  proof (intro ballI allI impI)
    fix x c' assume x: "x \<in> set ?es" "snd x = Num c'" "fst x \<noteq> t"
    then have "(fst x, Num c') \<in> set (fst (tallyVotes ps))"
      unfolding entries_set by (metis prod.collapse)
    then have "c' = cnt ps (fst x)"
      using tallyVotes_Num by blast
    then show "c' < cnt ps t"
      using assms(3) x(3) by simp
  qed
  show ?thesis
    unfolding scanVotes_def using d t assms(2) o by (rule scan_unique)
qed

lemma scanVotes_tie:
  assumes "t1 \<notin> set objectPrototypeKeys" and "t2 \<notin> set objectPrototypeKeys" and "t1 \<noteq> t2"
    and "0 < cnt ps t1" and "cnt ps t1 = cnt ps t2" and "\<forall>u. cnt ps u \<le> cnt ps t1"
  shows "\<exists>e. scanVotes (fst (tallyVotes ps)) = (cnt ps t1, e, True)"
proof -
  let ?es = "entries (fst (tallyVotes ps))"
  have a: "(t1, Num (cnt ps t1)) \<in> set ?es"
    unfolding entries_set using assms(1,4) by (rule tallyVotes_plain)
  have "(t2, Num (cnt ps t2)) \<in> set ?es"
    unfolding entries_set using assms(2,4,5) by (simp add: tallyVotes_plain)
  then have b: "(t2, Num (cnt ps t1)) \<in> set ?es"
    using assms(5) by simp
  have o: "\<forall>x \<in> set ?es. \<forall>c'. snd x = Num c' \<longrightarrow> c' \<le> cnt ps t1"
  proof (intro ballI allI impI)
    fix x c' assume x: "x \<in> set ?es" "snd x = Num c'"
    then have "(fst x, Num c') \<in> set (fst (tallyVotes ps))"
      unfolding entries_set by (metis prod.collapse)
    then have "c' = cnt ps (fst x)"
      using tallyVotes_Num by blast
    then show "c' \<le> cnt ps t1"
      using assms(6) by simp
  qed
  show ?thesis
    unfolding scanVotes_def using assms(4) assms(4) o a b assms(3) by (rule scan_tie)
qed

lemma processVotes_ejects:
  assumes "map_of (players s) t = Some p" and "t \<noteq> []" and "t \<notin> set objectPrototypeKeys"
    and "0 < ballots s t" and "\<forall>u. u \<noteq> t \<longrightarrow> ballots s u < ballots s t"
  shows "players (fst (processVotes s))
           = map (\<lambda>(k, q). (k, q\<lparr>vote := None\<rparr>))
               (AList.map_entry t (\<lambda>q. q\<lparr>isAlive := False\<rparr>) (players s))"
    and "snd (processVotes s)
           = ToRoom (PlayerEjected (player_id p) (player_name p) (role p)
                       (entries (fst (tallyVotes (playerValues s))))
                       (entries (snd (tallyVotes (playerValues s)))))
             # snd (checkGameEnd
                      (s\<lparr>players := AList.map_entry t (\<lambda>q. q\<lparr>isAlive := False\<rparr>) (players s)\<rparr>))"
proof -
  obtain votes voters where tv: "tallyVotes (playerValues s) = (votes, voters)"
    by (cases "tallyVotes (playerValues s)")
  obtain s1 out1 where cg: "checkGameEnd
      (s\<lparr>players := AList.map_entry t (\<lambda>q. q\<lparr>isAlive := False\<rparr>) (players s)\<rparr>) = (s1, out1)"
    by (cases "checkGameEnd
      (s\<lparr>players := AList.map_entry t (\<lambda>q. q\<lparr>isAlive := False\<rparr>) (players s)\<rparr>)")
  from checkGameEnd_frame [OF cg] have p1: "players s1
      = AList.map_entry t (\<lambda>q. q\<lparr>isAlive := False\<rparr>) (players s)"
    by simp
  have "scanVotes (fst (tallyVotes (playerValues s))) = (ballots s t, Some t, False)"
    unfolding ballots_cnt using assms(3,4,5) unfolding ballots_cnt by (rule scanVotes_unique)
  then have sc: "scanVotes votes = (ballots s t, Some t, False)"
    using tv by simp
  have rv: "resolveVotes s
      = (s1, ToRoom (PlayerEjected (player_id p) (player_name p) (role p)
                       (entries votes) (entries voters)) # out1)"
    using assms(1,2,4) by (simp add: resolveVotes_def tv sc cg)
  show "players (fst (processVotes s))
           = map (\<lambda>(k, q). (k, q\<lparr>vote := None\<rparr>))
               (AList.map_entry t (\<lambda>q. q\<lparr>isAlive := False\<rparr>) (players s))"
    by (simp add: processVotes_def rv clearVotes_def p1)
  show "snd (processVotes s)
           = ToRoom (PlayerEjected (player_id p) (player_name p) (role p)
                       (entries (fst (tallyVotes (playerValues s))))
                       (entries (snd (tallyVotes (playerValues s)))))
             # snd (checkGameEnd
                      (s\<lparr>players := AList.map_entry t (\<lambda>q. q\<lparr>isAlive := False\<rparr>) (players s)\<rparr>))"
    by (simp add: processVotes_def rv tv cg)
qed

lemma processVotes_tie:
  assumes "t1 \<notin> set objectPrototypeKeys" and "t2 \<notin> set objectPrototypeKeys" and "t1 \<noteq> t2"
    and "0 < ballots s t1" and "ballots s t1 = ballots s t2" and "\<forall>u. ballots s u \<le> ballots s t1"
  shows "processVotes s
           = (clearVotes s, [ToRoom (NoOneEjected True (entries (fst (tallyVotes (playerValues s)))))])"
proof -
  obtain votes voters where tv: "tallyVotes (playerValues s) = (votes, voters)"
    by (cases "tallyVotes (playerValues s)")
  have "\<exists>e. scanVotes (fst (tallyVotes (playerValues s))) = (ballots s t1, e, True)"
    unfolding ballots_cnt using assms unfolding ballots_cnt by (rule scanVotes_tie)
  then obtain e where sc: "scanVotes votes = (ballots s t1, e, True)"
    using tv by auto
  have "resolveVotes s = (s, [ToRoom (NoOneEjected True (entries votes))])"
    by (simp add: resolveVotes_def tv sc)
  then show ?thesis
    by (simp add: processVotes_def tv)
qed

lemma map_of_clear_entry:
  "map_option isAlive
     (map_of (map (\<lambda>(k, q). (k, q\<lparr>vote := None\<rparr>))
                (AList.map_entry t (\<lambda>q. q\<lparr>isAlive := False\<rparr>) al)) k)
   = (if k = t then map_option (\<lambda>q. False) (map_of al k) else map_option isAlive (map_of al k))"
proof -
  have c: "map_option isAlive (map_of (map (\<lambda>(k, q). (k, q\<lparr>vote := None\<rparr>)) xs) k)
      = map_option isAlive (map_of xs k)" for xs
    by (induction xs) auto
  show ?thesis
    by (induction al) (auto simp add: c)
qed

lemma clearVotes_alive: "map (isAlive \<circ> snd) (players (clearVotes s)) = map (isAlive \<circ> snd) (players s)"
  by (simp add: clearVotes_def case_prod_beta comp_def)

text \<open>
  Vote resolution for ballots that are plain keys. Votes for a target that does not name a
  member of \<open>Object.prototype\<close> are counted by the tally. If one target \<open>t\<close> holds strictly
  more ballots than every other, is in the registry and is a non-empty plain key,
  \<open>processVotes\<close> sets exactly that player's \<open>isAlive\<close> to false (and clears all votes) and
  emits \<open>player-ejected\<close> with the player's id, name and role, the tally and the voter map,
  followed by what the win evaluator emits. If two plain targets tie at the maximum, which
  is positive, no \<open>isAlive\<close> changes and the only message is \<open>no-one-ejected\<close> with
  \<open>tie = true\<close> and the tally.
\<close>

theorem processVotes_outcome:
  "(\<forall>k. k \<notin> set objectPrototypeKeys \<and> 0 < ballots s k
        \<longrightarrow> map_of (fst (tallyVotes (playerValues s))) k = Some (Num (ballots s k)))
   \<and> (map_of (players s) t = Some p \<and> t \<noteq> [] \<and> t \<notin> set objectPrototypeKeys
        \<and> 0 < ballots s t \<and> (\<forall>u. u \<noteq> t \<longrightarrow> ballots s u < ballots s t)
      \<longrightarrow> players (fst (processVotes s))
             = map (\<lambda>(k, q). (k, q\<lparr>vote := None\<rparr>))
                 (AList.map_entry t (\<lambda>q. q\<lparr>isAlive := False\<rparr>) (players s))
          \<and> (\<forall>k. map_option isAlive (map_of (players (fst (processVotes s))) k)
                  = (if k = t then Some False else map_option isAlive (map_of (players s) k)))
          \<and> snd (processVotes s)
             = ToRoom (PlayerEjected (player_id p) (player_name p) (role p)
                         (entries (fst (tallyVotes (playerValues s))))
                       (entries (snd (tallyVotes (playerValues s)))))
               # snd (checkGameEnd
                        (s\<lparr>players := AList.map_entry t (\<lambda>q. q\<lparr>isAlive := False\<rparr>) (players s)\<rparr>)))
   \<and> (t1 \<notin> set objectPrototypeKeys \<and> t2 \<notin> set objectPrototypeKeys \<and> t1 \<noteq> t2
        \<and> 0 < ballots s t1 \<and> ballots s t1 = ballots s t2 \<and> (\<forall>u. ballots s u \<le> ballots s t1)
      \<longrightarrow> processVotes s
             = (clearVotes s, [ToRoom (NoOneEjected True (entries (fst (tallyVotes (playerValues s)))))])
          \<and> map (isAlive \<circ> snd) (players (fst (processVotes s))) = map (isAlive \<circ> snd) (players s))"
proof (intro conjI allI impI)
  fix k assume "k \<notin> set objectPrototypeKeys \<and> 0 < ballots s k"
  then have "(k, Num (ballots s k)) \<in> set (fst (tallyVotes (playerValues s)))"
    unfolding ballots_cnt by (simp add: tallyVotes_plain)
  then show "map_of (fst (tallyVotes (playerValues s))) k = Some (Num (ballots s k))"
    using tallyVotes_distinct by simp
next
  assume h: "map_of (players s) t = Some p \<and> t \<noteq> [] \<and> t \<notin> set objectPrototypeKeys
        \<and> 0 < ballots s t \<and> (\<forall>u. u \<noteq> t \<longrightarrow> ballots s u < ballots s t)"
  then have e: "players (fst (processVotes s))
             = map (\<lambda>(k, q). (k, q\<lparr>vote := None\<rparr>))
                 (AList.map_entry t (\<lambda>q. q\<lparr>isAlive := False\<rparr>) (players s))"
    by (simp add: processVotes_ejects(1))
  then show "players (fst (processVotes s))
             = map (\<lambda>(k, q). (k, q\<lparr>vote := None\<rparr>))
                 (AList.map_entry t (\<lambda>q. q\<lparr>isAlive := False\<rparr>) (players s))" .
  show "snd (processVotes s)
             = ToRoom (PlayerEjected (player_id p) (player_name p) (role p)
                         (entries (fst (tallyVotes (playerValues s))))
                       (entries (snd (tallyVotes (playerValues s)))))
               # snd (checkGameEnd
                        (s\<lparr>players := AList.map_entry t (\<lambda>q. q\<lparr>isAlive := False\<rparr>) (players s)\<rparr>))"
    using h by (simp add: processVotes_ejects(2))
  fix k
  show "map_option isAlive (map_of (players (fst (processVotes s))) k)
                  = (if k = t then Some False else map_option isAlive (map_of (players s) k))"
    unfolding e map_of_clear_entry using h by simp
next
  assume h: "t1 \<notin> set objectPrototypeKeys \<and> t2 \<notin> set objectPrototypeKeys \<and> t1 \<noteq> t2
        \<and> 0 < ballots s t1 \<and> ballots s t1 = ballots s t2 \<and> (\<forall>u. ballots s u \<le> ballots s t1)"
  then show pv: "processVotes s
             = (clearVotes s, [ToRoom (NoOneEjected True (entries (fst (tallyVotes (playerValues s)))))])"
    using processVotes_tie [of t1 t2 s] by blast
  show "map (isAlive \<circ> snd) (players (fst (processVotes s))) = map (isAlive \<circ> snd) (players s)"
    unfolding pv by (simp add: clearVotes_alive)
qed

lemma voting_ballots:
  "ballots (voting vi va vb vc) u
     = (if vi = u then 1 else 0) + (if va = u then 1 else 0) + (if vb = u then 1 else 0)
       + (if vc = u then 1 else 0)"
  by (simp add: ballots_def voting_def playerValues_def)

lemma voting_tallies:
  "entries (fst (tallyVotes (playerValues tiedVote))) = [(''a'', Num 2), (''i'', Num 2)]
   \<and> entries (fst (tallyVotes (playerValues majorityVote))) = [(''a'', Num 1), (''i'', Num 3)]
   \<and> entries (snd (tallyVotes (playerValues majorityVote)))
       = [(''i'', ''a''), (''a'', ''i''), (''b'', ''i''), (''c'', ''i'')]
   \<and> map (isAlive \<circ> snd) (players tiedVote) = [True, True, True, True]
   \<and> map_of (players majorityVote) ''i'' = Some ((member ''i'' ''Ivy'' 0 Impostor True 0)\<lparr>vote := Some ''a''\<rparr>)"
  by code_simp

theorem processVotes_outcome_witness:
  "ballots tiedVote ''a'' = 2 \<and> ballots tiedVote ''i'' = 2
   \<and> processVotes tiedVote
       = (clearVotes tiedVote, [ToRoom (NoOneEjected True [(''a'', Num 2), (''i'', Num 2)])])
   \<and> map (isAlive \<circ> snd) (players (fst (processVotes tiedVote))) = [True, True, True, True]
   \<and> ballots majorityVote ''i'' = 3 \<and> ballots majorityVote ''a'' = 1
   \<and> map_of (fst (tallyVotes (playerValues majorityVote))) ''i'' = Some (Num 3)
   \<and> map_option isAlive (map_of (players (fst (processVotes majorityVote))) ''i'') = Some False
   \<and> map_option isAlive (map_of (players (fst (processVotes majorityVote))) ''a'') = Some True
   \<and> hd (snd (processVotes majorityVote))
       = ToRoom (PlayerEjected ''i'' ''Ivy'' (Some Impostor) [(''a'', Num 1), (''i'', Num 3)]
                   [(''i'', ''a''), (''a'', ''i''), (''b'', ''i''), (''c'', ''i'')])"
proof -
  have plain: "''i'' \<notin> set objectPrototypeKeys" "''a'' \<notin> set objectPrototypeKeys"
    by (simp_all add: objectPrototypeKeys_def)
  have tb: "ballots tiedVote ''a'' = 2" "ballots tiedVote ''i'' = 2"
    "\<forall>u. ballots tiedVote u \<le> ballots tiedVote ''a''"
    by (simp_all add: tiedVote_def voting_ballots)
  have mb: "ballots majorityVote ''i'' = 3" "ballots majorityVote ''a'' = 1"
    "\<forall>u. u \<noteq> ''i'' \<longrightarrow> ballots majorityVote u < ballots majorityVote ''i''"
    by (simp_all add: majorityVote_def voting_ballots)
  have mp: "map_of (players majorityVote) ''i''
      = Some ((member ''i'' ''Ivy'' 0 Impostor True 0)\<lparr>vote := Some ''a''\<rparr>)"
    and ma: "map_option isAlive (map_of (players majorityVote) ''a'') = Some True"
    by (simp_all add: majorityVote_def voting_def member_def)
  have th: "''a'' \<notin> set objectPrototypeKeys \<and> ''i'' \<notin> set objectPrototypeKeys \<and> ''a'' \<noteq> ''i''
        \<and> 0 < ballots tiedVote ''a'' \<and> ballots tiedVote ''a'' = ballots tiedVote ''i''
        \<and> (\<forall>u. ballots tiedVote u \<le> ballots tiedVote ''a'')"
    using plain tb by simp
  with processVotes_outcome [of tiedVote "''i''" "member ''i'' ''Ivy'' 0 Impostor True 0" "''a''" "''i''"]
  have "processVotes tiedVote
       = (clearVotes tiedVote, [ToRoom (NoOneEjected True (entries (fst (tallyVotes (playerValues tiedVote)))))])
     \<and> map (isAlive \<circ> snd) (players (fst (processVotes tiedVote)))
         = map (isAlive \<circ> snd) (players tiedVote)"
    by blast
  then have tie: "processVotes tiedVote
       = (clearVotes tiedVote, [ToRoom (NoOneEjected True [(''a'', Num 2), (''i'', Num 2)])])
     \<and> map (isAlive \<circ> snd) (players (fst (processVotes tiedVote))) = [True, True, True, True]"
    using voting_tallies by (simp add: clearVotes_alive)
  have mh: "map_of (players majorityVote) ''i''
         = Some ((member ''i'' ''Ivy'' 0 Impostor True 0)\<lparr>vote := Some ''a''\<rparr>)
       \<and> ''i'' \<noteq> [] \<and> ''i'' \<notin> set objectPrototypeKeys \<and> 0 < ballots majorityVote ''i''
       \<and> (\<forall>u. u \<noteq> ''i'' \<longrightarrow> ballots majorityVote u < ballots majorityVote ''i'')"
    using plain mb mp by simp
  with processVotes_outcome [of majorityVote "''i''"
      "(member ''i'' ''Ivy'' 0 Impostor True 0)\<lparr>vote := Some ''a''\<rparr>" "''a''" "''i''"]
  have "(\<forall>k. map_option isAlive (map_of (players (fst (processVotes majorityVote))) k)
                  = (if k = ''i'' then Some False
                     else map_option isAlive (map_of (players majorityVote) k)))
     \<and> snd (processVotes majorityVote)
       = ToRoom (PlayerEjected (player_id ((member ''i'' ''Ivy'' 0 Impostor True 0)\<lparr>vote := Some ''a''\<rparr>))
            (player_name ((member ''i'' ''Ivy'' 0 Impostor True 0)\<lparr>vote := Some ''a''\<rparr>))
            (role ((member ''i'' ''Ivy'' 0 Impostor True 0)\<lparr>vote := Some ''a''\<rparr>))
            (entries (fst (tallyVotes (playerValues majorityVote))))
            (entries (snd (tallyVotes (playerValues majorityVote)))))
          # snd (checkGameEnd (majorityVote\<lparr>players :=
                   AList.map_entry ''i'' (\<lambda>q. q\<lparr>isAlive := False\<rparr>) (players majorityVote)\<rparr>))"
    by blast
  then have ej: "(\<forall>k. map_option isAlive (map_of (players (fst (processVotes majorityVote))) k)
                  = (if k = ''i'' then Some False
                     else map_option isAlive (map_of (players majorityVote) k)))
     \<and> hd (snd (processVotes majorityVote))
       = ToRoom (PlayerEjected ''i'' ''Ivy'' (Some Impostor)
            (entries (fst (tallyVotes (playerValues majorityVote))))
            (entries (snd (tallyVotes (playerValues majorityVote)))))"
    by (simp add: member_def)
  then have "map_option isAlive (map_of (players (fst (processVotes majorityVote))) ''i'') = Some False
   \<and> map_option isAlive (map_of (players (fst (processVotes majorityVote))) ''a'') = Some True
   \<and> hd (snd (processVotes majorityVote))
       = ToRoom (PlayerEjected ''i'' ''Ivy'' (Some Impostor) [(''a'', Num 1), (''i'', Num 3)]
                   [(''i'', ''a''), (''a'', ''i''), (''b'', ''i''), (''c'', ''i'')])"
    using ma voting_tallies by simp
  moreover from processVotes_outcome [of majorityVote "''i''"
      "(member ''i'' ''Ivy'' 0 Impostor True 0)\<lparr>vote := Some ''a''\<rparr>" "''a''" "''i''"] plain(1) mb(1)
  have "map_of (fst (tallyVotes (playerValues majorityVote))) ''i'' = Some (Num 3)"
    by simp
  ultimately show ?thesis
    using tie tb mb by blast
qed

text \<open>
  The scenario of the claim in a run: four ballots, two for Ann and two for Ivy; the
  fourth vote resolves the meeting at once, with a tie and nobody ejected.
\<close>

lemma two_against_two:
  "emits (round4 @ [EmergencyMeeting ''a'', SubmitVote ''i'' (Some ''a''), SubmitVote ''a'' (Some ''i''),
                    SubmitVote ''b'' (Some ''a''), SubmitVote ''c'' (Some ''i'')]) initialState
     (ToRoom (NoOneEjected True [(''a'', Num 2), (''i'', Num 2)]))
   \<and> map_option (map isAlive \<circ> playerValues)
       (stateAfter (round4 @ [EmergencyMeeting ''a'', SubmitVote ''i'' (Some ''a''),
                              SubmitVote ''a'' (Some ''i''), SubmitVote ''b'' (Some ''a''),
                              SubmitVote ''c'' (Some ''i'')]) initialState)
     = Some [True, True, True, True]"
  by code_simp

text \<open>
  The tally is sent as the object enumerates: keys that are array indices come first, in
  ascending order, whatever the order in which the ballots were counted.
\<close>

lemma numeric_keys_first:
  "snd (processVotes (voting ''9'' ''10'' ''10'' ''9''))
     = [ToRoom (NoOneEjected True [(''9'', Num 2), (''10'', Num 2)])]
   \<and> fst (tallyVotes (playerValues (voting ''10'' ''9'' ''10'' ''9''))) = [(''10'', Num 2), (''9'', Num 2)]
   \<and> snd (processVotes (voting ''10'' ''9'' ''10'' ''9''))
     = [ToRoom (NoOneEjected True [(''9'', Num 2), (''10'', Num 2)])]"
  by code_simp

text \<open>
  C5 on the code. \<open>votes\<close> is created by \<open>{}\<close> and inherits from \<open>Object.prototype\<close>, so
  ballots for \<open>constructor\<close> are never counted as a number. With two ballots for Ann and
  two for \<open>constructor\<close>, two targets tie at the maximum of 2 out of 4 ballots, yet Ann is
  the only numeric entry of the tally: she is ejected, \<open>player-ejected\<close> is broadcast and
  no \<open>no-one-ejected\<close> with \<open>tie = true\<close>.
\<close>

theorem tie_with_prototype_name_ejects:
  "ballots (voting ''a'' ''constructor'' ''a'' ''constructor'') ''a'' = 2
   \<and> ballots (voting ''a'' ''constructor'' ''a'' ''constructor'') ''constructor'' = 2
   \<and> snd (processVotes (voting ''a'' ''constructor'' ''a'' ''constructor''))
       = [ToRoom (PlayerEjected ''a'' ''Ann'' (Some Crewmate)
                    [(''a'', Num 2), (''constructor'', NotNumeric)]
                    [(''i'', ''a''), (''a'', ''constructor''), (''b'', ''a''), (''c'', ''constructor'')])]
   \<and> map (isAlive \<circ> snd) (players (fst (processVotes (voting ''a'' ''constructor'' ''a'' ''constructor''))))
       = [True, False, True, True]
   \<and> emits protoTie initialState
        (ToRoom (PlayerEjected ''a'' ''Ann'' (Some Crewmate)
                   [(''a'', Num 2), (''constructor'', NotNumeric)]
                   [(''i'', ''a''), (''a'', ''constructor''), (''b'', ''a''), (''c'', ''constructor'')]))
   \<and> map_option (map isAlive \<circ> playerValues) (stateAfter protoTie initialState)
       = Some [True, False, True, True]"
  by code_simp

text \<open>
  Likewise three ballots for \<open>constructor\<close> against one for Ann leave Ann the only numeric
  entry of the tally, and she is ejected.
\<close>

lemma prototype_name_ballots_are_not_counted:
  "ballots (voting ''a'' ''constructor'' ''constructor'' ''constructor'') ''constructor'' = 3
   \<and> fst (tallyVotes (playerValues (voting ''a'' ''constructor'' ''constructor'' ''constructor'')))
       = [(''a'', Num 1), (''constructor'', NotNumeric)]
   \<and> map (isAlive \<circ> snd)
         (players (fst (processVotes (voting ''a'' ''constructor'' ''constructor'' ''constructor''))))
       = [True, False, True, True]"
  by code_simp

text \<open>
  When the target with strictly the most ballots is not in the registry, \<open>processVotes\<close>
  clears the votes and emits nothing.
\<close>

lemma processVotes_absent_winner:
  assumes "map_of (players s) t = None" and "t \<noteq> []" and "t \<notin> set objectPrototypeKeys"
    and "0 < ballots s t" and "\<forall>u. u \<noteq> t \<longrightarrow> ballots s u < ballots s t"
  shows "processVotes s = (clearVotes s, [])"
proof -
  obtain votes voters where tv: "tallyVotes (playerValues s) = (votes, voters)"
    by (cases "tallyVotes (playerValues s)")
  have "scanVotes (fst (tallyVotes (playerValues s))) = (ballots s t, Some t, False)"
    unfolding ballots_cnt using assms(3,4,5) unfolding ballots_cnt by (rule scanVotes_unique)
  then have sc: "scanVotes votes = (ballots s t, Some t, False)"
    using tv by simp
  have "resolveVotes s = (s, [])"
    using assms(1,2,4) by (simp add: resolveVotes_def tv sc)
  then show ?thesis
    by (simp add: processVotes_def)
qed

text \<open>
  C6 on the code. Ann and Bob vote for Cy, who then disconnects. When the meeting timer
  fires, Cy is the unique winner of the tally but is not in the registry: nobody's
  \<open>isAlive\<close> changes, the votes are cleared, and nothing at all is emitted, so no
  \<open>no-one-ejected\<close> message is broadcast.
\<close>

theorem vote_for_departed_player_resolves_silently:
  "map_option (map vote \<circ> playerValues) (stateAfter ghostVote initialState)
     = Some [None, Some ''c'', Some ''c'']
   \<and> map_option (step MeetingTimerFires) (stateAfter ghostVote initialState)
     = map_option (\<lambda>s. Some (clearVotes s, [])) (stateAfter ghostVote initialState)
   \<and> map_option (map isAlive \<circ> playerValues) (stateAfter (ghostVote @ [MeetingTimerFires]) initialState)
     = Some [True, True, True]"
  by code_simp

section \<open>Submitting votes in any order\<close>

lemma map_entry_id:
  assumes "\<And>p. map_of al k = Some p \<Longrightarrow> f p = p"
  shows "AList.map_entry k f al = al"
  using assms by (induction al) (auto split: if_splits)

lemma map_entry_cong:
  assumes "\<And>p. map_of al k = Some p \<Longrightarrow> f p = g p"
  shows "AList.map_entry k f al = AList.map_entry k g al"
  using assms by (induction al) (auto split: if_splits)

lemma map_entry_commute:
  "k \<noteq> k' \<Longrightarrow> AList.map_entry k f (AList.map_entry k' g al)
                = AList.map_entry k' g (AList.map_entry k f al)"
  by (induction al) auto

lemma setVote_ineligible: "\<not> eligible s sid \<Longrightarrow> setVote sid v s = s"
proof -
  assume a: "\<not> eligible s sid"
  have "AList.map_entry sid (\<lambda>p. if isAlive p then p\<lparr>vote := v\<rparr> else p) (players s) = players s"
    using a by (intro map_entry_id) (auto simp add: eligible_def)
  then show ?thesis
    by (simp add: setVote_def)
qed

lemma submit_vote_ineligible: "\<not> eligible s sid \<Longrightarrow> submit_vote sid v s = (s, [])"
  by (auto simp add: submit_vote_def eligible_def split: option.splits)

lemma submit_vote_eligible:
  assumes "map_of (players s) sid = Some p" and "isAlive p"
  shows "submit_vote sid v s =
     (if allAliveVoted (setVote sid v s)
      then (fst (processVotes (setVote sid v s)),
            ToRoom (VoteSubmitted (player_id p) (player_name p)) # snd (processVotes (setVote sid v s)))
      else (setVote sid v s, [ToRoom (VoteSubmitted (player_id p) (player_name p))]))"
proof -
  have "AList.map_entry sid (\<lambda>q. q\<lparr>vote := v\<rparr>) (players s)
      = AList.map_entry sid (\<lambda>p. if isAlive p then p\<lparr>vote := v\<rparr> else p) (players s)"
    using assms by (intro map_entry_cong) simp
  then have "s\<lparr>players := AList.map_entry sid (\<lambda>q. q\<lparr>vote := v\<rparr>) (players s)\<rparr> = setVote sid v s"
    by (simp add: setVote_def)
  then show ?thesis
    using assms by (simp add: submit_vote_def Let_def split: prod.splits)
qed

lemma allAliveVoted_iff:
  "allAliveVoted s \<longleftrightarrow> (\<forall>p \<in> set (playerValues s). isAlive p \<longrightarrow> vote p \<noteq> None)"
proof -
  have a: "length (filter P xs) = length xs \<longleftrightarrow> (\<forall>x \<in> set xs. P x)"
    for P :: "player \<Rightarrow> bool" and xs
    by (metis filter_id_conv length_filter_less less_irrefl)
  show ?thesis
    unfolding allAliveVoted_def by (subst a) auto
qed

lemma resolveVotes_players:
  assumes "resolveVotes s = (s1, out)"
  shows "(players s1 = players s
          \<or> (\<exists>pid. players s1 = AList.map_entry pid (\<lambda>p. p\<lparr>isAlive := False\<rparr>) (players s)))
       \<and> resolution out = out"
  using assms
  by (auto simp add: resolveVotes_def resolution_def split: prod.splits option.splits if_splits
      dest!: checkGameEnd_frame)

lemma eligible_iff: "eligible s sid \<longleftrightarrow> map_option isAlive (map_of (players s) sid) = Some True"
  by (auto simp add: eligible_def split: option.splits)

lemma eligible_map_entry_dead:
  assumes "eligible (s\<lparr>players := map (\<lambda>(k, p). (k, p\<lparr>vote := None\<rparr>))
                 (AList.map_entry pid (\<lambda>p. p\<lparr>isAlive := False\<rparr>) (players s))\<rparr>) sid"
  shows "eligible s sid"
  using assms unfolding eligible_iff
  by (simp add: map_of_clear_entry split: if_splits option.splits)

lemma map_of_clear:
  "map_option isAlive (map_of (map (\<lambda>(k, p). (k, p\<lparr>vote := None\<rparr>)) al) sid)
      = map_option isAlive (map_of al sid)"
  by (induction al) auto

lemma eligible_clear:
  assumes "eligible (s\<lparr>players := map (\<lambda>(k, p). (k, p\<lparr>vote := None\<rparr>)) (players s)\<rparr>) sid"
  shows "eligible s sid"
  using assms unfolding eligible_iff by (simp add: map_of_clear)

lemma processVotes_eligible:
  assumes "eligible (fst (processVotes s)) sid"
  shows "eligible s sid"
proof -
  obtain s1 out where rv: "resolveVotes s = (s1, out)"
    by (cases "resolveVotes s")
  have e: "eligible (s1\<lparr>players := map (\<lambda>(k, p). (k, p\<lparr>vote := None\<rparr>)) (players s1)\<rparr>) sid"
    using assms by (simp add: processVotes_def rv clearVotes_def)
  from resolveVotes_players [OF rv] consider
    (same) "players s1 = players s"
    | (dead) pid where "players s1 = AList.map_entry pid (\<lambda>p. p\<lparr>isAlive := False\<rparr>) (players s)"
    by blast
  then show ?thesis
  proof cases
    case same
    with e have "eligible (s\<lparr>players := map (\<lambda>(k, p). (k, p\<lparr>vote := None\<rparr>)) (players s)\<rparr>) sid"
      by (simp add: eligible_def)
    then show ?thesis
      by (rule eligible_clear)
  next
    case dead
    with e have "eligible (s\<lparr>players := map (\<lambda>(k, p). (k, p\<lparr>vote := None\<rparr>))
                 (AList.map_entry pid (\<lambda>p. p\<lparr>isAlive := False\<rparr>) (players s))\<rparr>) sid"
      by (simp add: eligible_def)
    then show ?thesis
      by (rule eligible_map_entry_dead)
  qed
qed

lemma processVotes_resolution: "resolution (snd (processVotes s)) = snd (processVotes s)"
proof -
  obtain s1 out where rv: "resolveVotes s = (s1, out)"
    by (cases "resolveVotes s")
  from resolveVotes_players [OF rv] show ?thesis
    by (simp add: processVotes_def rv)
qed

lemma castVotes_Cons: "castVotes ((sid, v) # calls) s = castVotes calls (setVote sid v s)"
  by (simp add: castVotes_def)

lemma submitVotes_ineligible:
  assumes "\<forall>c \<in> set calls. \<not> eligible s (fst c)"
  shows "submitVotes calls s = (s, []) \<and> castVotes calls s = s"
  using assms
proof (induction calls)
  case Nil
  show ?case by (simp add: castVotes_def)
next
  case (Cons c calls)
  obtain sid v where c: "c = (sid, v)"
    by (cases c)
  from Cons.prems c have n: "\<not> eligible s sid"
    by simp
  from Cons have "submitVotes calls s = (s, []) \<and> castVotes calls s = s"
    by simp
  then show ?case
    using c submit_vote_ineligible [OF n] setVote_ineligible [OF n] by (simp add: castVotes_Cons)
qed

lemma setVote_lookup_other:
  "sid' \<noteq> sid \<Longrightarrow> map_of (players (setVote sid v s)) sid' = map_of (players s) sid'"
  by (simp add: setVote_def map_of_map_entry_other)

lemma setVote_eligible: "eligible (setVote sid v s) sid' = eligible s sid'"
proof (cases "sid' = sid")
  case True
  then show ?thesis
    by (auto simp add: eligible_def setVote_def map_of_map_entry_same split: option.splits)
next
  case False
  then show ?thesis
    by (simp add: eligible_def setVote_lookup_other)
qed

lemma submitVotes_char:
  assumes "distinct (map fst calls)"
    and "\<forall>c \<in> set calls. \<forall>p. map_of (players s) (fst c) = Some p \<longrightarrow> isAlive p \<longrightarrow> vote p = None"
  shows "fst (submitVotes calls s)
           = (if (\<exists>c \<in> set calls. eligible s (fst c)) \<and> allAliveVoted (castVotes calls s)
              then fst (processVotes (castVotes calls s)) else castVotes calls s)
       \<and> resolution (snd (submitVotes calls s))
           = (if (\<exists>c \<in> set calls. eligible s (fst c)) \<and> allAliveVoted (castVotes calls s)
              then snd (processVotes (castVotes calls s)) else [])"
  using assms
proof (induction calls arbitrary: s)
  case Nil
  show ?case
    by (simp add: castVotes_def resolution_def)
next
  case (Cons c calls)
  obtain sid v where c: "c = (sid, v)"
    by (cases c)
  from Cons.prems(1) c have d: "distinct (map fst calls)" and fresh: "sid \<notin> fst ` set calls"
    by simp_all
  show ?case
  proof (cases "eligible s sid")
    case False
    have sv: "submit_vote sid v s = (s, [])" and st: "setVote sid v s = s"
      using False by (simp_all add: submit_vote_ineligible setVote_ineligible)
    have ex: "(\<exists>c' \<in> set (c # calls). eligible s (fst c')) = (\<exists>c' \<in> set calls. eligible s (fst c'))"
      using False c by simp
    from Cons.prems(2) have "\<forall>c \<in> set calls. \<forall>p. map_of (players s) (fst c) = Some p
        \<longrightarrow> isAlive p \<longrightarrow> vote p = None"
      by simp
    from Cons.IH [OF d this] show ?thesis
      unfolding ex unfolding c by (simp add: sv castVotes_Cons st split: prod.splits)
  next
    case True
    then obtain p where p: "map_of (players s) sid = Some p" "isAlive p"
      by (auto simp add: eligible_def split: option.splits)
    let ?s1 = "setVote sid v s"
    have cast: "castVotes (c # calls) s = castVotes calls ?s1"
      by (simp add: c castVotes_Cons)
    have ex: "\<exists>c' \<in> set (c # calls). eligible s (fst c')"
      using True c by simp
    have H1: "\<forall>c \<in> set calls. \<forall>q. map_of (players ?s1) (fst c) = Some q
        \<longrightarrow> isAlive q \<longrightarrow> vote q = None"
    proof (intro ballI allI impI)
      fix c' q assume c': "c' \<in> set calls" and q: "map_of (players ?s1) (fst c') = Some q" "isAlive q"
      from c' fresh have "fst c' \<noteq> sid"
        by auto
      then have "map_of (players s) (fst c') = Some q"
        using q(1) by (simp add: setVote_lookup_other)
      with Cons.prems(2) c' q(2) show "vote q = None"
        by simp
    qed
    show ?thesis
    proof (cases "allAliveVoted ?s1")
      case voted: True
      have none: "\<forall>c' \<in> set calls. \<not> eligible ?s1 (fst c')"
      proof
        fix c' assume c': "c' \<in> set calls"
        show "\<not> eligible ?s1 (fst c')"
        proof
          assume "eligible ?s1 (fst c')"
          then obtain q where q: "map_of (players ?s1) (fst c') = Some q" "isAlive q"
            by (auto simp add: eligible_def split: option.splits)
          with H1 c' have "vote q = None"
            by blast
          moreover from q(1) have "q \<in> set (playerValues ?s1)"
            unfolding playerValues_def by (metis map_of_SomeD image_eqI snd_conv set_map)
          ultimately show False
            using voted q(2) by (auto simp add: allAliveVoted_iff)
        qed
      qed
      then have "\<forall>c' \<in> set calls. \<not> eligible (fst (processVotes ?s1)) (fst c')"
        using processVotes_eligible by blast
      then have rest: "submitVotes calls (fst (processVotes ?s1)) = (fst (processVotes ?s1), [])"
        using submitVotes_ineligible by blast
      have same: "castVotes calls ?s1 = ?s1"
        using none submitVotes_ineligible by blast
      have "submitVotes (c # calls) s
          = (fst (processVotes ?s1),
             ToRoom (VoteSubmitted (player_id p) (player_name p)) # snd (processVotes ?s1))"
        using voted rest by (simp add: c submit_vote_eligible [OF p])
      then show ?thesis
        using ex voted
        by (simp add: cast same resolution_def processVotes_resolution [unfolded resolution_def])
    next
      case pending: False
      have sv: "submit_vote sid v s = (?s1, [ToRoom (VoteSubmitted (player_id p) (player_name p))])"
        using pending by (simp add: submit_vote_eligible [OF p])
      have cond: "((\<exists>c' \<in> set calls. eligible ?s1 (fst c')) \<and> allAliveVoted (castVotes calls ?s1))
          = allAliveVoted (castVotes calls ?s1)"
      proof (cases "\<exists>c' \<in> set calls. eligible ?s1 (fst c')")
        case True
        then show ?thesis by simp
      next
        case False
        then have "castVotes calls ?s1 = ?s1"
          using submitVotes_ineligible by blast
        with pending False show ?thesis
          by simp
      qed
      obtain s3 out3 where r: "submitVotes calls ?s1 = (s3, out3)"
        by (cases "submitVotes calls ?s1")
      from Cons.IH [OF d H1] r have
        "s3 = (if allAliveVoted (castVotes calls ?s1)
               then fst (processVotes (castVotes calls ?s1)) else castVotes calls ?s1)
         \<and> resolution out3 = (if allAliveVoted (castVotes calls ?s1)
               then snd (processVotes (castVotes calls ?s1)) else [])"
        unfolding cond by simp
      then show ?thesis
        using ex by (simp add: c sv cast [unfolded c] r resolution_def)
    qed
  qed
qed

lemma submitVotes_run:
  "run (map (\<lambda>c. SubmitVote (fst c) (snd c)) calls) s = Some (submitVotes calls s)"
  by (induction calls arbitrary: s) (auto split: prod.splits)

lemma castVotes_permuted:
  assumes "distinct (map fst calls)" and "mset calls' = mset calls"
  shows "castVotes calls' s = castVotes calls s"
proof -
  have "(\<lambda>c. setVote (fst c) (snd c)) x \<circ> (\<lambda>c. setVote (fst c) (snd c)) y
      = (\<lambda>c. setVote (fst c) (snd c)) y \<circ> (\<lambda>c. setVote (fst c) (snd c)) x"
    if "x \<in> set calls" "y \<in> set calls" for x y
  proof (cases "fst x = fst y")
    case True
    with that assms(1) have "x = y"
      by (metis eq_key_imp_eq_value prod.collapse)
    then show ?thesis by simp
  next
    case False
    then show ?thesis
      by (auto simp add: fun_eq_iff setVote_def map_entry_commute)
  qed
  then have "fold (\<lambda>c. setVote (fst c) (snd c)) calls = fold (\<lambda>c. setVote (fst c) (snd c)) calls'"
    using assms(2) by (intro fold_multiset_equiv) simp_all
  then show ?thesis
    by (simp add: castVotes_def)
qed

text \<open>
  C8. In a meeting that starts with all votes cleared, a set of \<open>submit-vote\<close> messages
  from distinct sockets gives the same final state and resolves the same way (the same
  ejection or no-ejection message, the same end of round) in whatever order the messages
  arrive; only the order of the \<open>vote-submitted\<close> notices differs.
\<close>

theorem submit_vote_order_independent:
  assumes "\<forall>p \<in> set (playerValues s). vote p = None"
    and "distinct (map fst calls)" and "mset calls' = mset calls"
  shows "fst (submitVotes calls' s) = fst (submitVotes calls s)
       \<and> resolution (snd (submitVotes calls' s)) = resolution (snd (submitVotes calls s))"
proof -
  have H: "\<forall>c \<in> set cs. \<forall>p. map_of (players s) (fst c) = Some p \<longrightarrow> isAlive p \<longrightarrow> vote p = None"
    for cs :: "(ident \<times> string option) list"
  proof (intro ballI allI impI)
    fix c p assume "map_of (players s) (fst c) = Some p"
    then have "p \<in> set (playerValues s)"
      unfolding playerValues_def by (metis map_of_SomeD image_eqI snd_conv set_map)
    with assms(1) show "vote p = None"
      by simp
  qed
  have "mset (map fst calls') = mset (map fst calls)"
    using assms(3) by simp
  then have d': "distinct (map fst calls')"
    using assms(2) by (metis mset_eq_imp_distinct_iff)
  have set: "set calls' = set calls"
    using assms(3) by (rule mset_eq_setD)
  have cast: "castVotes calls' s = castVotes calls s"
    using assms(2,3) by (rule castVotes_permuted)
  from submitVotes_char [OF assms(2) H] submitVotes_char [OF d' H] show ?thesis
    unfolding cast set by simp
qed

lemma meetingOpen_state: "stateAfter (round4 @ [EmergencyMeeting ''a'']) initialState = Some meetingOpen"
  by code_simp

lemma fourBallots_outcome:
  "map (isAlive \<circ> snd) (players (fst (submitVotes fourBallots meetingOpen))) = [False, True, True, True]
   \<and> resolution (snd (submitVotes fourBallots meetingOpen))
       = [ToRoom (PlayerEjected ''i'' ''Ivy'' (Some Impostor) [(''a'', Num 1), (''i'', Num 3)]
                    [(''i'', ''a''), (''a'', ''i''), (''b'', ''i''), (''c'', ''i'')]),
          ToRoom (GameEnded ''crewmates'' ''All impostors eliminated''
                    [(''i'', ''Ivy'', Some Impostor, 0, False), (''a'', ''Ann'', Some Crewmate, 0, True),
                     (''b'', ''Bob'', Some Crewmate, 0, True), (''c'', ''Cy'', Some Crewmate, 0, True)])]"
  by code_simp

theorem submit_vote_order_independent_witness:
  "list_all (\<lambda>p. vote p = None) (playerValues meetingOpen)
   \<and> distinct (map fst fourBallots)
   \<and> mset [(''b'', Some ''i''), (''i'', Some ''a''), (''c'', Some ''i''), (''a'', Some ''i'')] = mset fourBallots
   \<and> fst (submitVotes [(''b'', Some ''i''), (''i'', Some ''a''), (''c'', Some ''i''), (''a'', Some ''i'')]
             meetingOpen)
       = fst (submitVotes fourBallots meetingOpen)
   \<and> resolution (snd (submitVotes [(''b'', Some ''i''), (''i'', Some ''a''), (''c'', Some ''i''),
                                     (''a'', Some ''i'')] meetingOpen))
       = resolution (snd (submitVotes fourBallots meetingOpen))
   \<and> map (isAlive \<circ> snd) (players (fst (submitVotes fourBallots meetingOpen)))
       = [False, True, True, True]"
proof -
  have h1: "\<forall>p \<in> set (playerValues meetingOpen). vote p = None"
    by (simp add: meetingOpen_def playerValues_def member_def)
  have h2: "distinct (map fst fourBallots)"
    by (simp add: fourBallots_def)
  have h3: "mset [(''b'', Some ''i''), (''i'', Some ''a''), (''c'', Some ''i''), (''a'', Some ''i'')]
      = mset fourBallots"
    by (simp add: fourBallots_def)
  from submit_vote_order_independent [OF h1 h2 h3] h1 h2 h3 fourBallots_outcome show ?thesis
    by (simp add: list_all_iff)
qed

end
